theory Spec2Isabelle
  imports Main
begin

section \<open>Values of the configuration and of the front-matter\<close>

text \<open>
  The configuration is whatever \<^verbatim>\<open>yaml.safe_load\<close> returns, and the processor
  hands its entries on without converting them, so the model keeps them as loosely typed
  as the code does: \<open>None\<close>, booleans, unbounded integers, strings, lists and mappings.
  Mapping keys are strings (the configuration format has no other key); floats and
  timestamps are left out.
\<close>

datatype yval =
    YNone
  | YBool bool
  | YInt int
  | YStr string
  | YList "yval list"
  | YDict "(string \<times> yval) list"

type_synonym ydict = "(string \<times> yval) list"

text \<open>Python's truth value of an object, as \<^verbatim>\<open>not x\<close> tests it.\<close>

fun truthy :: "yval \<Rightarrow> bool" where
  "truthy YNone = False"
| "truthy (YBool b) = b"
| "truthy (YInt i) = (i \<noteq> 0)"
| "truthy (YStr s) = (s \<noteq> [])"
| "truthy (YList xs) = (xs \<noteq> [])"
| "truthy (YDict d) = (d \<noteq> [])"

text \<open>
  Python's \<^verbatim>\<open>==\<close>: a boolean equals the integer 0 or 1, lists are compared
  element by element, mappings key by key whatever the order of their entries.
\<close>

fun py_eq :: "yval \<Rightarrow> yval \<Rightarrow> bool" where
  "py_eq YNone YNone = True"
| "py_eq (YBool a) (YBool b) = (a = b)"
| "py_eq (YBool a) (YInt i) = (i = (if a then 1 else 0))"
| "py_eq (YInt i) (YBool a) = (i = (if a then 1 else 0))"
| "py_eq (YInt i) (YInt j) = (i = j)"
| "py_eq (YStr s) (YStr t) = (s = t)"
| "py_eq (YList []) (YList []) = True"
| "py_eq (YList (x # xs)) (YList (y # ys)) = (py_eq x y \<and> py_eq (YList xs) (YList ys))"
| "py_eq (YDict a) (YDict b) =
     (length a = length b \<and>
      list_all (\<lambda>(k, v). list_ex (\<lambda>(k', v'). k = k' \<and> py_eq v v') b) a)"
| "py_eq _ _ = False"

text \<open>\<^verbatim>\<open>d.get(k)\<close> and \<^verbatim>\<open>d.get(k, default)\<close> on a mapping.\<close>

definition dict_get_default :: "ydict \<Rightarrow> string \<Rightarrow> yval \<Rightarrow> yval" where
  "dict_get_default d k dflt = (case map_of d k of None \<Rightarrow> dflt | Some v \<Rightarrow> v)"

definition dict_get :: "ydict \<Rightarrow> string \<Rightarrow> yval" where
  "dict_get d k = dict_get_default d k YNone"

datatype py_error = AttributeError | TypeError | EOFError | KeyboardInterrupt

text \<open>
  \<^verbatim>\<open>x.get(k)\<close> on an arbitrary object: only a mapping has the method.
\<close>

fun obj_get :: "yval \<Rightarrow> string \<Rightarrow> py_error + yval" where
  "obj_get (YDict d) k = Inr (dict_get d k)"
| "obj_get _ k = Inl AttributeError"

text \<open>
  \<^verbatim>\<open>for x in v\<close>: a list gives its elements, a string its characters, a mapping
  its keys; nothing else of the model can be iterated.
\<close>

fun py_iter :: "yval \<Rightarrow> py_error + yval list" where
  "py_iter (YList xs) = Inr xs"
| "py_iter (YStr s) = Inr (map (\<lambda>c. YStr [c]) s)"
| "py_iter (YDict d) = Inr (map (\<lambda>(k, v). YStr k) d)"
| "py_iter _ = Inl TypeError"

fun is_dict :: "yval \<Rightarrow> bool" where
  "is_dict (YDict d) = True"
| "is_dict _ = False"

section \<open>ConfigManager\<close>

text \<open>
  Every line the program prints is a fixed template with the values formatted into it.
  A message is modelled as its template together with those values, so that no
  rendering of Python objects as text has to be reproduced.
\<close>

datatype message =
    ErrFileNotFound string
  | ErrYamlUnreadable string
  | ErrOther string
  | ErrNoTags
  | ErrNoTag
  | ErrPropsNotList yval
  | ErrPropsNotDicts yval
  | ErrNoAction yval
  | ErrOldMissing yval yval
  | ErrNewMissing yval yval
  | WarnSame yval yval
  | MsgCancelled
  | MsgBackupCreated
  | MsgBackupError string
  | MsgSaved


fun is_error :: "message \<Rightarrow> bool" where
  "is_error (ErrFileNotFound p) = True"
| "is_error (ErrYamlUnreadable p) = True"
| "is_error (ErrOther e) = True"
| "is_error ErrNoTags = True"
| "is_error ErrNoTag = True"
| "is_error (ErrPropsNotList t) = True"
| "is_error (ErrPropsNotDicts t) = True"
| "is_error (ErrNoAction t) = True"
| "is_error (ErrOldMissing a t) = True"
| "is_error (ErrNewMissing a t) = True"
| "is_error _ = False"

text \<open>
  How a call ends: it returns, an exception leaves it, or \<^verbatim>\<open>exit\<close> ends the
  process with a status.
\<close>

datatype 'a outcome = Returned 'a | Raised py_error | Exited int

fun terminates_process :: "'a outcome \<Rightarrow> bool" where
  "terminates_process (Exited c) = True"
| "terminates_process _ = False"

text \<open>
  What opening and parsing the configuration file can give: the three failures the
  handlers of \<^verbatim>\<open>_load_yaml\<close> tell apart, or the parsed content.
\<close>

datatype file_read =
    FileNotFound
  | YamlError
  | OtherFailure string
  | Parsed yval

text \<open>\<^verbatim>\<open>ConfigManager._load_yaml\<close>: the printed lines and how the call ends.\<close>

fun load_yaml :: "string \<Rightarrow> file_read \<Rightarrow> message list \<times> yval outcome" where
  "load_yaml path (Parsed y) = ([], Returned y)"
| "load_yaml path FileNotFound = ([ErrFileNotFound path], Exited (- 1))"
| "load_yaml path YamlError = ([ErrYamlUnreadable path], Exited (- 1))"
| "load_yaml path (OtherFailure e) = ([ErrOther e], Exited (- 1))"

text \<open>
  \<^verbatim>\<open>ConfigManager._validate_tag\<close>: the printed lines and the result, an
  \<open>AttributeError\<close> when the entry is no mapping.
\<close>

definition validate_tag :: "yval \<Rightarrow> message list \<times> (py_error + bool)" where
  "validate_tag tag =
     (case obj_get tag ''tag'' of
        Inl e \<Rightarrow> ([], Inl e)
      | Inr name \<Rightarrow>
          if \<not> truthy name then ([ErrNoTag], Inr False)
          else case obj_get tag ''properties'' of
            Inl e \<Rightarrow> ([], Inl e)
          | Inr props \<Rightarrow>
              (case props of
                 YList ps \<Rightarrow>
                   if \<not> list_all is_dict ps then ([ErrPropsNotDicts tag], Inr False)
                   else ([], Inr True)
               | _ \<Rightarrow> ([ErrPropsNotList tag], Inr False)))"

text \<open>
  The body of the loop of \<^verbatim>\<open>ConfigManager._validate_properties\<close>, with the
  list \<open>properties\<close> built so far as accumulator. A dropped entry prints one line and
  leaves the accumulator as it is.
\<close>

fun validate_properties_loop ::
  "yval \<Rightarrow> yval list \<Rightarrow> ydict list \<Rightarrow> message list \<times> (py_error + ydict list)" where
  "validate_properties_loop tag_name [] properties = ([], Inr properties)"
| "validate_properties_loop tag_name (YDict prop # rest) properties =
     (let action = dict_get prop ''action'' in
      if \<not> truthy action then
        (case validate_properties_loop tag_name rest properties of
           (ms, r) \<Rightarrow> (ErrNoAction tag_name # ms, r))
      else if (py_eq action (YStr ''rename'') \<or> py_eq action (YStr ''remove''))
              \<and> \<not> truthy (dict_get prop ''old'') then
        (case validate_properties_loop tag_name rest properties of
           (ms, r) \<Rightarrow> (ErrOldMissing action tag_name # ms, r))
      else if (py_eq action (YStr ''rename'') \<or> py_eq action (YStr ''add''))
              \<and> \<not> truthy (dict_get prop ''new'') then
        (case validate_properties_loop tag_name rest properties of
           (ms, r) \<Rightarrow> (ErrNewMissing action tag_name # ms, r))
      else if py_eq (dict_get prop ''new'') (dict_get prop ''old'') then
        (case validate_properties_loop tag_name rest properties of
           (ms, r) \<Rightarrow> (WarnSame action tag_name # ms, r))
      else validate_properties_loop tag_name rest (properties @ [prop]))"
| "validate_properties_loop tag_name (p # rest) properties = ([], Inl AttributeError)"

text \<open>
  \<^verbatim>\<open>ConfigManager._validate_properties\<close>: \<^verbatim>\<open>tag.get("properties", [])\<close> is
  iterated, starting from the empty list.
\<close>

definition validate_properties :: "ydict \<Rightarrow> message list \<times> (py_error + ydict list)" where
  "validate_properties tag =
     (case py_iter (dict_get_default tag ''properties'' (YList [])) of
        Inl e \<Rightarrow> ([], Inl e)
      | Inr ps \<Rightarrow> validate_properties_loop (dict_get tag ''tag'') ps [])"

text \<open>
  \<^verbatim>\<open>ConfigManager.get_next_tag\<close> is a generator. Its run is the sequence of what
  it does, in order: a line printed, a pair yielded (the second component is \<open>None\<close>
  or the list of surviving property entries), or an exception that ends it.
\<close>

datatype gen_event =
    Diag message
  | Yield yval "ydict list option"
  | GenRaise py_error

fun tags_loop :: "yval list \<Rightarrow> gen_event list" where
  "tags_loop [] = []"
| "tags_loop (tag # rest) =
     (case validate_tag tag of
        (ms, Inl e) \<Rightarrow> map Diag ms @ [GenRaise e]
      | (ms, Inr False) \<Rightarrow> map Diag ms @ tags_loop rest
      | (ms, Inr True) \<Rightarrow>
          (case tag of
             YDict d \<Rightarrow>
               (case validate_properties d of
                  (ms', Inl e) \<Rightarrow> map Diag ms @ map Diag ms' @ [GenRaise e]
                | (ms', Inr ps) \<Rightarrow>
                    map Diag ms @ map Diag ms' @ Yield (dict_get d ''tag'') (Some ps) # tags_loop rest)
           | _ \<Rightarrow> map Diag ms @ [GenRaise AttributeError]))"

definition get_next_tag :: "yval \<Rightarrow> gen_event list" where
  "get_next_tag yaml =
     (case yaml of
        YDict d \<Rightarrow>
          (if dict_get d ''tags'' = YNone then [Diag ErrNoTags, Yield YNone None] else []) @
          (case py_iter (dict_get_default d ''tags'' (YList [])) of
             Inl e \<Rightarrow> [GenRaise e]
           | Inr ts \<Rightarrow> tags_loop ts)
      | _ \<Rightarrow> [GenRaise AttributeError])"

definition yielded :: "gen_event list \<Rightarrow> (yval \<times> ydict list option) list" where
  "yielded evs = concat (map (\<lambda>e. case e of Yield t ps \<Rightarrow> [(t, ps)] | _ \<Rightarrow> []) evs)"

definition printed :: "gen_event list \<Rightarrow> message list" where
  "printed evs = concat (map (\<lambda>e. case e of Diag m \<Rightarrow> [m] | _ \<Rightarrow> []) evs)"

section \<open>PropertyChangeTracker\<close>

text \<open>
  A change is the dictionary \<^verbatim>\<open>add_change\<close> builds; a field that the caller
  leaves out is \<open>None\<close>. A log line is its template and the property name in it.
\<close>

record change =
  c_action :: string
  c_old_property :: yval
  c_new_property :: yval
  c_old_value :: yval
  c_new_value :: yval

datatype log_entry = LogNotFound yval | LogAlreadyExists yval

type_synonym addr = nat

type_synonym frontmatter = "yval \<rightharpoonup> yval"

text \<open>
  A tracker holds references to its two front-matter mappings, which live in the store
  of mappings of the processor's state; its two lists are its own.
\<close>

record tracker =
  filename :: string
  old_frontmatter :: addr
  new_frontmatter :: addr
  changes :: "change list"
  logs :: "log_entry list"

definition add_change :: "string \<Rightarrow> yval \<Rightarrow> yval \<Rightarrow> yval \<Rightarrow> yval \<Rightarrow> tracker \<Rightarrow> tracker" where
  "add_change act old_p new_p old_v new_v t =
     t\<lparr>changes := changes t @
          [\<lparr>c_action = act, c_old_property = old_p, c_new_property = new_p,
            c_old_value = old_v, c_new_value = new_v\<rparr>]\<rparr>"

definition add_log :: "log_entry \<Rightarrow> tracker \<Rightarrow> tracker" where
  "add_log m t = t\<lparr>logs := logs t @ [m]\<rparr>"

section \<open>The storage collaborator\<close>

text \<open>
  A note has a path and a reference to its live front-matter mapping
  (\<^verbatim>\<open>note.metadata.frontmatter.metadata\<close>).
\<close>

record Note =
  path :: string
  metadata :: addr

text \<open>
  Modelled from the spec: the methods \<^verbatim>\<open>has\<close>, \<^verbatim>\<open>get\<close>, \<^verbatim>\<open>add\<close> and
  \<^verbatim>\<open>remove\<close> of a note's metadata, which belong to the storage library and are not
  part of the sources. The spec gives them as testing, reading, writing and deleting
  one property of the front-matter mapping. \<^verbatim>\<open>add\<close> writes the value under a name
  that is not there. What it makes of a name that is there already is fixed neither by
  the interface nor by the processor, which passes no flag for it; it is left open as the
  parameter \<open>lib\<close> of the model: \<open>lib w v\<close> is the value of a field that held \<open>w\<close> after
  \<open>v\<close> has been added to it.
\<close>

type_synonym add_existing = "yval \<Rightarrow> yval \<Rightarrow> yval"

definition md_has :: "frontmatter \<Rightarrow> yval \<Rightarrow> bool" where
  "md_has m k = (m k \<noteq> None)"

definition md_get :: "frontmatter \<Rightarrow> yval \<Rightarrow> yval" where
  "md_get m k = (case m k of Some v \<Rightarrow> v | None \<Rightarrow> YNone)"

definition md_add :: "add_existing \<Rightarrow> frontmatter \<Rightarrow> yval \<Rightarrow> yval \<Rightarrow> frontmatter" where
  "md_add lib m k v = (case m k of None \<Rightarrow> m(k \<mapsto> v) | Some w \<Rightarrow> m(k \<mapsto> lib w v))"

definition md_remove :: "frontmatter \<Rightarrow> yval \<Rightarrow> frontmatter" where
  "md_remove m k = m(k := None)"

text \<open>
  Modelled from the spec: the test behind \<^verbatim>\<open>Notes.filter(has_meta=...)\<close>, which
  belongs to the storage library. A criterion \<open>(key, value)\<close> holds of a front-matter
  when the field \<open>key\<close> has \<open>value\<close> as one of its values: a membership test when the
  field is a list.
\<close>

definition has_meta :: "frontmatter \<Rightarrow> yval \<times> yval \<Rightarrow> bool" where
  "has_meta m crit =
     (case m (fst crit) of
        None \<Rightarrow> False
      | Some (YList vs) \<Rightarrow> list_ex (\<lambda>v. py_eq v (snd crit)) vs
      | Some v \<Rightarrow> py_eq v (snd crit))"

section \<open>PropertyProcessor\<close>

text \<open>
  What the run does that can be seen from outside, in order: a line printed, a tracker's
  summary shown (the tracker is named by its reference), the prompt, the archive made or
  its creation failing, and the two calls that persist.
\<close>

datatype event =
    Print message
  | ShowSummary addr
  | Input
  | ArchiveCreated
  | ArchiveFailed
  | UpdateContent
  | Write

text \<open>
  The state of a run. The mutable objects that the processor shares are kept in two
  stores, one of front-matter mappings and one of trackers, each with the next free
  reference; a copy allocates a new reference. \<open>note_list\<close> is the list inside the one
  \<^verbatim>\<open>Notes\<close> object of the processor. \<open>disk\<close> is the persisted front-matter of each
  document and \<open>archive\<close> the backup, once made.
\<close>

record pstate =
  note_list :: "Note list"
  current_note :: "Note option"
  all_changes :: "addr list"
  change_tracker :: addr
  dicts :: "addr \<Rightarrow> frontmatter"
  next_dict :: addr
  trackers :: "addr \<Rightarrow> tracker"
  next_tracker :: addr
  disk :: "string \<rightharpoonup> frontmatter"
  archive :: "(string \<rightharpoonup> frontmatter) option"
  out :: "event list"

text \<open>What the operator and the file system answer during \<^verbatim>\<open>_finish\<close>.\<close>

datatype confirm_input = Acknowledge | Interrupt | InputFails

datatype archive_result = ArchiveOk | ArchiveFails string | ArchiveInterrupted

record env =
  confirm :: confirm_input
  backup :: archive_result

definition alloc_dict :: "frontmatter \<Rightarrow> pstate \<Rightarrow> addr \<times> pstate" where
  "alloc_dict m st =
     (next_dict st,
      st\<lparr>dicts := (dicts st)(next_dict st := m), next_dict := Suc (next_dict st)\<rparr>)"

text \<open>
  \<^verbatim>\<open>deepcopy\<close> of a mapping: a new mapping with the same content. The values are
  trees without references, so that copying the mapping copies all of it.
\<close>

definition deepcopy :: "addr \<Rightarrow> pstate \<Rightarrow> addr \<times> pstate" where
  "deepcopy a st = alloc_dict (dicts st a) st"

definition alloc_tracker :: "tracker \<Rightarrow> pstate \<Rightarrow> addr \<times> pstate" where
  "alloc_tracker t st =
     (next_tracker st,
      st\<lparr>trackers := (trackers st)(next_tracker st := t),
         next_tracker := Suc (next_tracker st)\<rparr>)"

text \<open>
  \<^verbatim>\<open>PropertyChangeTracker(filename, {}, {})\<close>: the two empty mappings are made
  first, then the tracker.
\<close>

definition new_tracker :: "string \<Rightarrow> pstate \<Rightarrow> addr \<times> pstate" where
  "new_tracker f st =
     (let (e1, st1) = alloc_dict Map.empty st;
          (e2, st2) = alloc_dict Map.empty st1
      in alloc_tracker
           \<lparr>filename = f, old_frontmatter = e1, new_frontmatter = e2,
            changes = [], logs = []\<rparr> st2)"

definition update_tracker :: "(tracker \<Rightarrow> tracker) \<Rightarrow> pstate \<Rightarrow> pstate" where
  "update_tracker f st =
     st\<lparr>trackers := (trackers st)(change_tracker st := f (trackers st (change_tracker st)))\<rparr>"

text \<open>\<^verbatim>\<open>PropertyProcessor._rename_property\<close>\<close>

definition rename_property :: "add_existing \<Rightarrow> yval \<Rightarrow> yval \<Rightarrow> pstate \<Rightarrow> py_error + pstate" where
  "rename_property lib old_property new_property st =
     (case current_note st of
        None \<Rightarrow> Inl AttributeError
      | Some n \<Rightarrow>
          if md_has (dicts st (metadata n)) old_property then
            (let v = md_get (dicts st (metadata n)) old_property;
                 st1 = st\<lparr>dicts := (dicts st)(metadata n :=
                            md_add lib (dicts st (metadata n)) new_property v)\<rparr>;
                 st2 = st1\<lparr>dicts := (dicts st1)(metadata n :=
                            md_remove (dicts st1 (metadata n)) old_property)\<rparr>
             in Inr (update_tracker (add_change ''rename'' old_property new_property v v) st2))
          else Inr (update_tracker (add_log (LogNotFound old_property)) st))"

text \<open>\<^verbatim>\<open>PropertyProcessor._add_property\<close>\<close>

definition add_property :: "add_existing \<Rightarrow> yval \<Rightarrow> yval \<Rightarrow> pstate \<Rightarrow> py_error + pstate" where
  "add_property lib prop v st =
     (case current_note st of
        None \<Rightarrow> Inl AttributeError
      | Some n \<Rightarrow>
          if \<not> md_has (dicts st (metadata n)) prop then
            (let st1 = st\<lparr>dicts := (dicts st)(metadata n :=
                            md_add lib (dicts st (metadata n)) prop v)\<rparr>
             in Inr (update_tracker (add_change ''add'' YNone prop YNone v) st1))
          else Inr (update_tracker (add_log (LogAlreadyExists prop)) st))"

text \<open>\<^verbatim>\<open>PropertyProcessor._remove_property\<close>\<close>

definition remove_property :: "yval \<Rightarrow> pstate \<Rightarrow> py_error + pstate" where
  "remove_property prop st =
     (case current_note st of
        None \<Rightarrow> Inl AttributeError
      | Some n \<Rightarrow>
          if md_has (dicts st (metadata n)) prop then
            (let st1 = st\<lparr>dicts := (dicts st)(metadata n :=
                            md_remove (dicts st (metadata n)) prop)\<rparr>
             in Inr (update_tracker (add_change ''remove'' prop YNone YNone YNone) st1))
          else Inr (update_tracker (add_log (LogNotFound prop)) st))"

text \<open>
  \<^verbatim>\<open>PropertyProcessor._process_properties\<close>: an entry whose action is none of
  the three runs no branch.
\<close>

fun process_properties :: "add_existing \<Rightarrow> ydict list \<Rightarrow> pstate \<Rightarrow> py_error + pstate" where
  "process_properties lib [] st = Inr st"
| "process_properties lib (prop # rest) st =
     (let act = dict_get prop ''action'' in
      if py_eq act (YStr ''add'') then
        (case add_property lib (dict_get prop ''new'') (dict_get prop ''default'') st of
           Inl e \<Rightarrow> Inl e
         | Inr st' \<Rightarrow> process_properties lib rest st')
      else if py_eq act (YStr ''rename'') then
        (case rename_property lib (dict_get prop ''old'') (dict_get prop ''new'') st of
           Inl e \<Rightarrow> Inl e
         | Inr st' \<Rightarrow> process_properties lib rest st')
      else if py_eq act (YStr ''remove'') then
        (case remove_property (dict_get prop ''old'') st of
           Inl e \<Rightarrow> Inl e
         | Inr st' \<Rightarrow> process_properties lib rest st')
      else process_properties lib rest st)"

text \<open>
  \<^verbatim>\<open>PropertyProcessor._get_filtered_notes\<close>: the processor's own collection is
  filtered, and it is that collection which is returned, so the result is read from
  \<open>note_list\<close> of the state returned here.

  Modelled from the spec: \<^verbatim>\<open>Notes.filter\<close>, which belongs to the storage library,
  keeps the notes that meet every criterion. The processor drops what \<^verbatim>\<open>filter\<close>
  returns and goes on with the object it called it on, so the selection is what
  \<^verbatim>\<open>filter\<close> leaves in that object.
\<close>

definition get_filtered_notes :: "(yval \<times> yval) list \<Rightarrow> pstate \<Rightarrow> pstate" where
  "get_filtered_notes meta_data st =
     st\<lparr>note_list := filter (\<lambda>n. list_all (has_meta (dicts st (metadata n))) meta_data) (note_list st)\<rparr>"

text \<open>The body of the loop over the notes in \<^verbatim>\<open>PropertyProcessor.run\<close>.\<close>

definition run_note :: "add_existing \<Rightarrow> ydict list \<Rightarrow> Note \<Rightarrow> pstate \<Rightarrow> py_error + pstate" where
  "run_note lib properties n st =
     (let st1 = st\<lparr>current_note := Some n\<rparr>;
          (ta, st2) = new_tracker (path n) st1;
          st3 = st2\<lparr>change_tracker := ta\<rparr>;
          (a, st4) = deepcopy (metadata n) st3;
          st5 = update_tracker (\<lambda>t. t\<lparr>old_frontmatter := a\<rparr>) st4
      in case process_properties lib properties st5 of
           Inl e \<Rightarrow> Inl e
         | Inr st6 \<Rightarrow>
             (case current_note st6 of
                None \<Rightarrow> Inl AttributeError
              | Some c \<Rightarrow>
                  (let (b, st7) = deepcopy (metadata c) st6;
                       st8 = update_tracker (\<lambda>t. t\<lparr>new_frontmatter := b\<rparr>) st7
                   in Inr (st8\<lparr>all_changes := all_changes st8 @ [change_tracker st8]\<rparr>))))"

fun run_notes :: "add_existing \<Rightarrow> ydict list \<Rightarrow> Note list \<Rightarrow> pstate \<Rightarrow> py_error + pstate" where
  "run_notes lib properties [] st = Inr st"
| "run_notes lib properties (n # ns) st =
     (case run_note lib properties n st of
        Inl e \<Rightarrow> Inl e
      | Inr st' \<Rightarrow> run_notes lib properties ns st')"

fun truthy_list :: "ydict list option \<Rightarrow> bool" where
  "truthy_list None = False"
| "truthy_list (Some ps) = (ps \<noteq> [])"

text \<open>
  The loop of \<^verbatim>\<open>PropertyProcessor.run\<close> over what the generator does. The result
  is the exception that ended the run, if any, and the state. An empty selection is
  skipped: whether the collection object counts as false when empty or not, the loop
  over its notes then does nothing.
\<close>

fun run_loop :: "add_existing \<Rightarrow> gen_event list \<Rightarrow> pstate \<Rightarrow> py_error option \<times> pstate" where
  "run_loop lib [] st = (None, st)"
| "run_loop lib (Diag m # evs) st = run_loop lib evs (st\<lparr>out := out st @ [Print m]\<rparr>)"
| "run_loop lib (GenRaise e # evs) st = (Some e, st)"
| "run_loop lib (Yield tag properties # evs) st =
     (if \<not> truthy tag \<or> \<not> truthy_list properties then run_loop lib evs st
      else
        (let st1 = get_filtered_notes [(YStr ''tags'', tag)] st in
         if note_list st1 = [] then run_loop lib evs st1
         else case run_notes lib (case properties of Some ps \<Rightarrow> ps | None \<Rightarrow> []) (note_list st1) st1 of
                Inl e \<Rightarrow> (Some e, st1)
              | Inr st2 \<Rightarrow> run_loop lib evs st2))"

text \<open>
  \<^verbatim>\<open>PropertyProcessor._backup_vault\<close>: the archive is a snapshot of what is on
  disk. A failure of \<^verbatim>\<open>make_archive\<close> that is an \<^verbatim>\<open>Exception\<close> is printed and
  the process exits; an interrupt is no \<^verbatim>\<open>Exception\<close> and leaves the call.
\<close>

definition backup_vault :: "env \<Rightarrow> pstate \<Rightarrow> unit outcome \<times> pstate" where
  "backup_vault ev st =
     (case backup ev of
        ArchiveOk \<Rightarrow>
          (Returned (),
           st\<lparr>archive := Some (disk st),
              out := out st @ [ArchiveCreated, Print MsgBackupCreated]\<rparr>)
      | ArchiveFails e \<Rightarrow>
          (Exited (- 1), st\<lparr>out := out st @ [ArchiveFailed, Print (MsgBackupError e)]\<rparr>)
      | ArchiveInterrupted \<Rightarrow>
          (Raised KeyboardInterrupt, st\<lparr>out := out st @ [ArchiveFailed]\<rparr>))"

text \<open>
  Modelled from the spec: \<^verbatim>\<open>Notes.update_content\<close> and \<^verbatim>\<open>Notes.write\<close>, which
  belong to the storage library, materialise the front-matter of every note of the
  collection and write it to the note's file.
\<close>

definition write_notes :: "pstate \<Rightarrow> pstate" where
  "write_notes st =
     st\<lparr>disk := fold (\<lambda>n d. d(path n \<mapsto> dicts st (metadata n))) (note_list st) (disk st),
        out := out st @ [UpdateContent, Write]\<rparr>"

text \<open>\<^verbatim>\<open>PropertyProcessor._finish\<close>\<close>

definition finish :: "env \<Rightarrow> pstate \<Rightarrow> unit outcome \<times> pstate" where
  "finish ev st =
     (let st1 = st\<lparr>out := out st @ map ShowSummary (all_changes st) @ [Input]\<rparr> in
      case confirm ev of
        Interrupt \<Rightarrow> (Returned (), st1\<lparr>out := out st1 @ [Print MsgCancelled]\<rparr>)
      | InputFails \<Rightarrow> (Raised EOFError, st1)
      | Acknowledge \<Rightarrow>
          (case backup_vault ev st1 of
             (Returned u, st2) \<Rightarrow>
               (let st3 = write_notes st2
                in (Returned (), st3\<lparr>out := out st3 @ [Print MsgSaved]\<rparr>))
           | (Raised e, st2) \<Rightarrow> (Raised e, st2)
           | (Exited c, st2) \<Rightarrow> (Exited c, st2)))"

text \<open>\<^verbatim>\<open>PropertyProcessor.run\<close>\<close>

definition run :: "add_existing \<Rightarrow> env \<Rightarrow> yval \<Rightarrow> pstate \<Rightarrow> unit outcome \<times> pstate" where
  "run lib ev yaml st =
     (case run_loop lib (get_next_tag yaml) st of
        (Some e, st') \<Rightarrow> (Raised e, st')
      | (None, st') \<Rightarrow> finish ev st')"

text \<open>
  The collection as \<^verbatim>\<open>Notes(vault_path)\<close> reads it from the documents of the
  vault, given as the list of their paths and front-matters: the document at position
  \<open>i\<close> gets the reference \<open>i\<close>.
\<close>

definition load_notes :: "(string \<times> frontmatter) list \<Rightarrow> pstate" where
  "load_notes vault =
     \<lparr>note_list = map (\<lambda>i. \<lparr>path = fst (vault ! i), metadata = i\<rparr>) [0..<length vault],
      current_note = None,
      all_changes = [],
      change_tracker = 0,
      dicts = (\<lambda>a. if a < length vault then snd (vault ! a) else Map.empty),
      next_dict = length vault,
      trackers = (\<lambda>a. \<lparr>filename = [], old_frontmatter = 0, new_frontmatter = 0,
                        changes = [], logs = []\<rparr>),
      next_tracker = 0,
      disk = map_of vault,
      archive = None,
      out = []\<rparr>"

text \<open>
  \<^verbatim>\<open>PropertyProcessor.__init__\<close> followed by \<^verbatim>\<open>run\<close>, as \<^verbatim>\<open>start\<close> calls
  them once both paths are valid: the collection is read, the configuration is loaded,
  which may end the process, and the first tracker is made.
\<close>

definition construct_and_run ::
  "add_existing \<Rightarrow> (string \<times> frontmatter) list \<Rightarrow> string \<Rightarrow> file_read \<Rightarrow> env \<Rightarrow> unit outcome \<times> pstate" where
  "construct_and_run lib vault yaml_path rd ev =
     (let st0 = load_notes vault in
      case load_yaml yaml_path rd of
        (ms, Returned yaml) \<Rightarrow>
          (let (ta, st1) = new_tracker [] (st0\<lparr>out := map Print ms\<rparr>)
           in run lib ev yaml (st1\<lparr>change_tracker := ta\<rparr>))
      | (ms, Raised e) \<Rightarrow> (Raised e, st0\<lparr>out := map Print ms\<rparr>)
      | (ms, Exited c) \<Rightarrow> (Exited c, st0\<lparr>out := map Print ms\<rparr>))"

text \<open>
  The state in which \<^verbatim>\<open>run\<close> starts: the collection read and the first tracker
  made.
\<close>

definition ready :: "(string \<times> frontmatter) list \<Rightarrow> pstate" where
  "ready vault =
     (let (ta, st1) = new_tracker [] (load_notes vault) in st1\<lparr>change_tracker := ta\<rparr>)"

text \<open>
  Whether, in a sequence of events, every call that persists comes after the archive has
  been made. The flag says whether it has been made so far.
\<close>

fun persist_after_backup :: "bool \<Rightarrow> event list \<Rightarrow> bool" where
  "persist_after_backup b [] = True"
| "persist_after_backup b (ArchiveCreated # evs) = persist_after_backup True evs"
| "persist_after_backup b (UpdateContent # evs) = (b \<and> persist_after_backup b evs)"
| "persist_after_backup b (Write # evs) = (b \<and> persist_after_backup b evs)"
| "persist_after_backup b (e # evs) = persist_after_backup b evs"

fun persists :: "event \<Rightarrow> bool" where
  "persists UpdateContent = True"
| "persists Write = True"
| "persists _ = False"

section \<open>Reasoning about the stores\<close>

text \<open>
  What one operation on the current note can change: the front-matter of that note, and
  the two lists of the current tracker.
\<close>

definition touch :: "pstate \<Rightarrow> addr \<Rightarrow> frontmatter \<Rightarrow> change list \<Rightarrow> log_entry list \<Rightarrow> pstate" where
  "touch st a m cs ls =
     st\<lparr>dicts := (dicts st)(a := m),
        trackers := (trackers st)(change_tracker st :=
          (trackers st (change_tracker st))\<lparr>changes := cs, logs := ls\<rparr>)\<rparr>"

text \<open>
  The references of a state are sound when every live front-matter was allocated, and
  every tracker of the session was allocated and refers to two allocated mappings, none
  of them the live front-matter of a note of the collection.
\<close>

definition sound_refs :: "pstate \<Rightarrow> bool" where
  "sound_refs st \<longleftrightarrow>
     (\<forall>n \<in> set (note_list st). metadata n < next_dict st) \<and>
     (\<forall>t \<in> set (all_changes st).
        t < next_tracker st \<and>
        old_frontmatter (trackers st t) < next_dict st \<and>
        new_frontmatter (trackers st t) < next_dict st \<and>
        old_frontmatter (trackers st t) \<notin> metadata ` set (note_list st) \<and>
        new_frontmatter (trackers st t) \<notin> metadata ` set (note_list st))"

text \<open>
  What the loop over rules and documents leaves alone between two of its states: the
  collection only loses notes, references are only added, an allocated mapping that is
  not a live front-matter keeps its content, an allocated tracker stays as it is, the
  session only grows, nothing is persisted or archived, and the output only gains
  printed lines.
\<close>

definition frame :: "pstate \<Rightarrow> pstate \<Rightarrow> bool" where
  "frame st st' \<longleftrightarrow>
     set (note_list st') \<subseteq> set (note_list st) \<and>
     next_dict st \<le> next_dict st' \<and>
     next_tracker st \<le> next_tracker st' \<and>
     (\<forall>a. a < next_dict st \<and> a \<notin> metadata ` set (note_list st) \<longrightarrow> dicts st' a = dicts st a) \<and>
     (\<forall>t. t < next_tracker st \<longrightarrow> trackers st' t = trackers st t) \<and>
     (\<exists>ts. all_changes st' = all_changes st @ ts) \<and>
     disk st' = disk st \<and> archive st' = archive st \<and>
     (\<exists>ms. out st' = out st @ map Print ms)"

text \<open>
  Whether a property entry gets past the three checks of
  \<^verbatim>\<open>_validate_properties\<close> that come before the comparison of the old and
  the new name: an action, an old name for a rename or a remove, a new name for a rename
  or an add.
\<close>

definition passes_presence_checks :: "ydict \<Rightarrow> bool" where
  "passes_presence_checks prop \<longleftrightarrow>
     truthy (dict_get prop ''action'') \<and>
     \<not> ((py_eq (dict_get prop ''action'') (YStr ''rename'') \<or>
          py_eq (dict_get prop ''action'') (YStr ''remove'')) \<and>
         \<not> truthy (dict_get prop ''old'')) \<and>
     \<not> ((py_eq (dict_get prop ''action'') (YStr ''rename'') \<or>
          py_eq (dict_get prop ''action'') (YStr ''add'')) \<and>
         \<not> truthy (dict_get prop ''new''))"

section \<open>A small vault\<close>

text \<open>
  The vault of the spec's end-to-end scenario: one document tagged \<open>draft\<close> with a
  \<open>status\<close>, and one document without front-matter. \<open>at_first_note\<close> is the state
  in which the first document is the current note.
\<close>

definition draft_vault :: "(string \<times> frontmatter) list" where
  "draft_vault =
     [(''a.md'', [YStr ''tags'' \<mapsto> YList [YStr ''draft''], YStr ''status'' \<mapsto> YStr ''todo'']),
      (''b.md'', Map.empty)]"

definition at_first_note :: pstate where
  "at_first_note = (load_notes draft_vault)\<lparr>current_note := Some \<lparr>path = ''a.md'', metadata = 0\<rparr>\<rparr>"

text \<open>The configuration of the same scenario: one rule, renaming \<open>status\<close> to \<open>state\<close>.\<close>

definition draft_config :: yval where
  "draft_config =
     YDict [(''tags'', YList [YDict [(''tag'', YStr ''draft''),
       (''properties'', YList [YDict [(''action'', YStr ''rename''), (''old'', YStr ''status''),
                                      (''new'', YStr ''state'')]])]])]"

text \<open>
  A vault of two documents with different tags, and a configuration with one rule for
  each tag.
\<close>

definition two_tag_vault :: "(string \<times> frontmatter) list" where
  "two_tag_vault =
     [(''a.md'', [YStr ''tags'' \<mapsto> YList [YStr ''alpha'']]),
      (''b.md'', [YStr ''tags'' \<mapsto> YList [YStr ''beta'']])]"

definition two_rules :: yval where
  "two_rules =
     YDict [(''tags'', YList
       [YDict [(''tag'', YStr ''alpha''),
               (''properties'', YList [YDict [(''action'', YStr ''add''), (''new'', YStr ''x'')]])],
        YDict [(''tag'', YStr ''beta''),
               (''properties'', YList [YDict [(''action'', YStr ''add''), (''new'', YStr ''y'')]])]])]"

text \<open>
  The first document of the small vault as a note, the operations of the rule that
  renames \<open>status\<close>, and those of a rule that adds an \<open>owner\<close>.
\<close>

definition first_note :: Note where
  "first_note = \<lparr>path = ''a.md'', metadata = 0\<rparr>"

definition rename_rule :: "ydict list" where
  "rename_rule = [[(''action'', YStr ''rename''), (''old'', YStr ''status''), (''new'', YStr ''state'')]]"

definition owner_rule :: "ydict list" where
  "owner_rule = [[(''action'', YStr ''add''), (''new'', YStr ''owner''), (''default'', YStr ''x'')]]"

text \<open>
  Two ways a storage library may treat a field that is there already when a value is
  added to it: the new value takes its place, or it is put after what the field holds.
\<close>

definition add_replaces :: add_existing where
  "add_replaces w v = v"

definition add_appends :: add_existing where
  "add_appends w v = (case w of YList ws \<Rightarrow> YList (ws @ [v]) | _ \<Rightarrow> YList [w, v])"


section \<open>Properties\<close>

lemma py_eq_YStr [simp]: "py_eq v (YStr s) = (v = YStr s)"
  by (cases v) auto

lemma touch_touch: "touch (touch st a m cs ls) a m' cs' ls' = touch st a m' cs' ls'"
  by (simp add: touch_def)

lemma touch_fields [simp]:
  "current_note (touch st a m cs ls) = current_note st"
  "change_tracker (touch st a m cs ls) = change_tracker st"
  by (simp_all add: touch_def)

lemma rename_property_touch:
  assumes "current_note st = Some n"
  shows "\<exists>m cs ls. rename_property lib old_p new_p st = Inr (touch st (metadata n) m cs ls)"
proof (cases "md_has (dicts st (metadata n)) old_p")
  case True
  with assms have "rename_property lib old_p new_p st =
      Inr (touch st (metadata n)
             (md_remove (md_add lib (dicts st (metadata n)) new_p (md_get (dicts st (metadata n)) old_p)) old_p)
             (changes (trackers st (change_tracker st)) @
                [\<lparr>c_action = ''rename'', c_old_property = old_p, c_new_property = new_p,
                  c_old_value = md_get (dicts st (metadata n)) old_p,
                  c_new_value = md_get (dicts st (metadata n)) old_p\<rparr>])
             (logs (trackers st (change_tracker st))))"
    by (simp add: rename_property_def touch_def update_tracker_def add_change_def add_log_def Let_def)
  then show ?thesis by blast
next
  case False
  with assms have "rename_property lib old_p new_p st =
      Inr (touch st (metadata n) (dicts st (metadata n))
             (changes (trackers st (change_tracker st)))
             (logs (trackers st (change_tracker st)) @ [LogNotFound old_p]))"
    by (simp add: rename_property_def touch_def update_tracker_def add_change_def add_log_def)
  then show ?thesis by blast
qed

lemma add_property_touch:
  assumes "current_note st = Some n"
  shows "\<exists>m cs ls. add_property lib p v st = Inr (touch st (metadata n) m cs ls)"
proof (cases "md_has (dicts st (metadata n)) p")
  case False
  with assms have "add_property lib p v st =
      Inr (touch st (metadata n) (md_add lib (dicts st (metadata n)) p v)
             (changes (trackers st (change_tracker st)) @
                [\<lparr>c_action = ''add'', c_old_property = YNone, c_new_property = p,
                  c_old_value = YNone, c_new_value = v\<rparr>])
             (logs (trackers st (change_tracker st))))"
    by (simp add: add_property_def touch_def update_tracker_def add_change_def add_log_def Let_def)
  then show ?thesis by blast
next
  case True
  with assms have "add_property lib p v st =
      Inr (touch st (metadata n) (dicts st (metadata n))
             (changes (trackers st (change_tracker st)))
             (logs (trackers st (change_tracker st)) @ [LogAlreadyExists p]))"
    by (simp add: add_property_def touch_def update_tracker_def add_change_def add_log_def)
  then show ?thesis by blast
qed

lemma remove_property_touch:
  assumes "current_note st = Some n"
  shows "\<exists>m cs ls. remove_property p st = Inr (touch st (metadata n) m cs ls)"
proof (cases "md_has (dicts st (metadata n)) p")
  case True
  with assms have "remove_property p st =
      Inr (touch st (metadata n) (md_remove (dicts st (metadata n)) p)
             (changes (trackers st (change_tracker st)) @
                [\<lparr>c_action = ''remove'', c_old_property = p, c_new_property = YNone,
                  c_old_value = YNone, c_new_value = YNone\<rparr>])
             (logs (trackers st (change_tracker st))))"
    by (simp add: remove_property_def touch_def update_tracker_def add_change_def add_log_def Let_def)
  then show ?thesis by blast
next
  case False
  with assms have "remove_property p st =
      Inr (touch st (metadata n) (dicts st (metadata n))
             (changes (trackers st (change_tracker st)))
             (logs (trackers st (change_tracker st)) @ [LogNotFound p]))"
    by (simp add: remove_property_def touch_def update_tracker_def add_change_def add_log_def)
  then show ?thesis by blast
qed

lemma touch_id:
  "touch st a (dicts st a) (changes (trackers st (change_tracker st)))
     (logs (trackers st (change_tracker st))) = st"
  by (simp add: touch_def)

lemma process_properties_touch:
  "current_note st = Some n \<Longrightarrow>
   \<exists>m cs ls. process_properties lib ps st = Inr (touch st (metadata n) m cs ls)"
proof (induction ps arbitrary: st)
  case Nil
  show ?case using touch_id[of st "metadata n"] by (metis process_properties.simps(1))
next
  case (Cons p ps)
  have step: "\<exists>m cs ls. process_properties lib ps (touch st (metadata n) m1 cs1 ls1)
                 = Inr (touch st (metadata n) m cs ls)" for m1 cs1 ls1
  proof -
    have "current_note (touch st (metadata n) m1 cs1 ls1) = Some n" using Cons.prems by simp
    from Cons.IH[OF this] show ?thesis by (auto simp: touch_touch)
  qed
  obtain ma ca la where a: "add_property lib (dict_get p ''new'') (dict_get p ''default'') st
      = Inr (touch st (metadata n) ma ca la)"
    using add_property_touch[OF Cons.prems] by blast
  obtain mr cr lr where r: "rename_property lib (dict_get p ''old'') (dict_get p ''new'') st
      = Inr (touch st (metadata n) mr cr lr)"
    using rename_property_touch[OF Cons.prems] by blast
  obtain md cd ld where d: "remove_property (dict_get p ''old'') st
      = Inr (touch st (metadata n) md cd ld)"
    using remove_property_touch[OF Cons.prems] by blast
  have n: "\<exists>m cs ls. process_properties lib ps st = Inr (touch st (metadata n) m cs ls)"
    using step[of "dicts st (metadata n)" "changes (trackers st (change_tracker st))"
               "logs (trackers st (change_tracker st))"] by (simp add: touch_id)
  show ?case
    using step[of ma ca la] step[of mr cr lr] step[of md cd ld] n
    by (simp add: Let_def a r d)
qed

lemma run_note_effect:
  assumes "metadata n < next_dict st"
  shows "\<exists>st'. run_note lib ps n st = Inr st' \<and>
     note_list st' = note_list st \<and> disk st' = disk st \<and> archive st' = archive st \<and>
     out st' = out st \<and>
     next_dict st' = next_dict st + 4 \<and> next_tracker st' = Suc (next_tracker st) \<and>
     all_changes st' = all_changes st @ [next_tracker st] \<and>
     change_tracker st' = next_tracker st \<and> current_note st' = Some n \<and>
     (\<forall>a. a < next_dict st \<and> a \<noteq> metadata n \<longrightarrow> dicts st' a = dicts st a) \<and>
     (\<forall>t. t \<noteq> next_tracker st \<longrightarrow> trackers st' t = trackers st t) \<and>
     filename (trackers st' (next_tracker st)) = path n \<and>
     old_frontmatter (trackers st' (next_tracker st)) = next_dict st + 2 \<and>
     new_frontmatter (trackers st' (next_tracker st)) = next_dict st + 3 \<and>
     dicts st' (next_dict st + 2) = dicts st (metadata n) \<and>
     dicts st' (next_dict st + 3) = dicts st' (metadata n)"
proof -
  define st5 where "st5 =
    st\<lparr>current_note := Some n,
       next_tracker := Suc (next_tracker st),
       change_tracker := next_tracker st,
       dicts := (dicts st)(next_dict st := Map.empty, Suc (next_dict st) := Map.empty,
                            Suc (Suc (next_dict st)) := dicts st (metadata n)),
       next_dict := Suc (Suc (Suc (next_dict st))),
       trackers := (trackers st)(next_tracker st :=
          \<lparr>filename = path n, old_frontmatter = Suc (Suc (next_dict st)),
           new_frontmatter = Suc (next_dict st), changes = [], logs = []\<rparr>)\<rparr>"
  have cur: "current_note st5 = Some n" by (simp add: st5_def)
  obtain m cs ls where pp: "process_properties lib ps st5 = Inr (touch st5 (metadata n) m cs ls)"
    using process_properties_touch[OF cur] by blast
  have rn: "run_note lib ps n st =
     (case process_properties lib ps st5 of
           Inl e \<Rightarrow> Inl e
         | Inr st6 \<Rightarrow>
             (case current_note st6 of
                None \<Rightarrow> Inl AttributeError
              | Some c \<Rightarrow>
                  (let (b, st7) = deepcopy (metadata c) st6;
                       st8 = update_tracker (\<lambda>t. t\<lparr>new_frontmatter := b\<rparr>) st7
                   in Inr (st8\<lparr>all_changes := all_changes st8 @ [change_tracker st8]\<rparr>))))"
    using assms
    by (simp add: run_note_def new_tracker_def alloc_dict_def alloc_tracker_def deepcopy_def
        update_tracker_def Let_def st5_def)
  show ?thesis
    using assms
    apply (simp add: rn pp)
    apply (simp add: touch_def st5_def deepcopy_def alloc_dict_def update_tracker_def Let_def)
    done
qed

lemma frame_refl: "frame st st"
  by (simp add: frame_def exI[of _ "[]"])

lemma frame_trans:
  assumes "frame st st1" "frame st1 st2"
  shows "frame st st2"
proof -
  obtain ts1 ms1 where 1: "all_changes st1 = all_changes st @ ts1" "out st1 = out st @ map Print ms1"
    using assms(1) by (auto simp: frame_def)
  obtain ts2 ms2 where 2: "all_changes st2 = all_changes st1 @ ts2" "out st2 = out st1 @ map Print ms2"
    using assms(2) by (auto simp: frame_def)
  have ac: "\<exists>ts. all_changes st2 = all_changes st @ ts" using 1 2 by simp
  have ou: "\<exists>ms. out st2 = out st @ map Print ms"
    using 1 2 by (metis append.assoc map_append)
  have d: "dicts st2 a = dicts st a"
    if "a < next_dict st" "a \<notin> metadata ` set (note_list st)" for a
  proof -
    have "a < next_dict st1" "a \<notin> metadata ` set (note_list st1)"
      using that assms(1) by (auto simp: frame_def)
    then have "dicts st2 a = dicts st1 a" using assms(2) by (simp add: frame_def)
    moreover have "dicts st1 a = dicts st a" using that assms(1) by (simp add: frame_def)
    ultimately show ?thesis by simp
  qed
  have t: "trackers st2 t = trackers st t" if "t < next_tracker st" for t
  proof -
    have "t < next_tracker st1" using that assms(1) by (auto simp: frame_def)
    then have "trackers st2 t = trackers st1 t" using assms(2) by (simp add: frame_def)
    moreover have "trackers st1 t = trackers st t" using that assms(1) by (simp add: frame_def)
    ultimately show ?thesis by simp
  qed
  have rest: "set (note_list st2) \<subseteq> set (note_list st)" "next_dict st \<le> next_dict st2"
    "next_tracker st \<le> next_tracker st2" "disk st2 = disk st" "archive st2 = archive st"
    using assms by (auto simp: frame_def)
  show ?thesis
    unfolding frame_def using rest ac ou d t by blast
qed

lemma run_note_frame:
  assumes s: "sound_refs st" and n: "n \<in> set (note_list st)"
  shows "\<exists>st'. run_note lib ps n st = Inr st' \<and> frame st st' \<and> sound_refs st' \<and>
               note_list st' = note_list st"
proof -
  have lt: "metadata n < next_dict st" using s n by (simp add: sound_refs_def)
  from run_note_effect[OF lt, of lib ps] obtain st' where
    r: "run_note lib ps n st = Inr st'" and
    nl: "note_list st' = note_list st" and
    dk: "disk st' = disk st" "archive st' = archive st" "out st' = out st" and
    nd: "next_dict st' = next_dict st + 4" and
    nt: "next_tracker st' = Suc (next_tracker st)" and
    ac: "all_changes st' = all_changes st @ [next_tracker st]" and
    di: "\<forall>a. a < next_dict st \<and> a \<noteq> metadata n \<longrightarrow> dicts st' a = dicts st a" and
    tr: "\<forall>t. t \<noteq> next_tracker st \<longrightarrow> trackers st' t = trackers st t" and
    ol: "old_frontmatter (trackers st' (next_tracker st)) = next_dict st + 2" and
    nw: "new_frontmatter (trackers st' (next_tracker st)) = next_dict st + 3"
    by blast
  have f: "frame st st'"
    unfolding frame_def using nl dk nd nt ac di tr n
    by (auto intro: exI[of _ "[]"])
  have live: "\<forall>n \<in> set (note_list st). metadata n < next_dict st"
    using s by (simp add: sound_refs_def)
  have old_ok: "t < next_tracker st \<and>
        old_frontmatter (trackers st t) < next_dict st \<and>
        new_frontmatter (trackers st t) < next_dict st \<and>
        old_frontmatter (trackers st t) \<notin> metadata ` set (note_list st) \<and>
        new_frontmatter (trackers st t) \<notin> metadata ` set (note_list st)"
    if "t \<in> set (all_changes st)" for t
    using s that by (simp add: sound_refs_def)
  have fresh: "next_dict st + k \<notin> metadata ` set (note_list st)" for k
    using live by auto
  have a1: "\<forall>m \<in> set (note_list st'). metadata m < next_dict st'"
    using live nl nd by auto
  have a2: "t < next_tracker st' \<and>
        old_frontmatter (trackers st' t) < next_dict st' \<and>
        new_frontmatter (trackers st' t) < next_dict st' \<and>
        old_frontmatter (trackers st' t) \<notin> metadata ` set (note_list st') \<and>
        new_frontmatter (trackers st' t) \<notin> metadata ` set (note_list st')"
    if t: "t \<in> set (all_changes st')" for t
  proof (cases "t = next_tracker st")
    case True
    then show ?thesis using nt nd ol nw nl fresh[of 2] fresh[of 3] by simp
  next
    case False
    then have "t \<in> set (all_changes st)" using t ac by simp
    from old_ok[OF this] show ?thesis using tr False nt nd nl by simp
  qed
  have s': "sound_refs st'"
    unfolding sound_refs_def using a1 a2 by blast
  show ?thesis using r f s' nl by blast
qed

lemma run_notes_frame:
  "sound_refs st \<Longrightarrow> set ns \<subseteq> set (note_list st) \<Longrightarrow>
   \<exists>st'. run_notes lib ps ns st = Inr st' \<and> frame st st' \<and> sound_refs st' \<and>
         note_list st' = note_list st"
proof (induction ns arbitrary: st)
  case Nil
  then show ?case by (simp add: frame_refl)
next
  case (Cons n ns)
  then have "n \<in> set (note_list st)" by simp
  from run_note_frame[OF Cons.prems(1) this, of lib ps] obtain st1 where
    1: "run_note lib ps n st = Inr st1" "frame st st1" "sound_refs st1" "note_list st1 = note_list st"
    by blast
  have "set ns \<subseteq> set (note_list st1)" using Cons.prems(2) 1(4) by simp
  from Cons.IH[OF 1(3) this] obtain st2 where
    2: "run_notes lib ps ns st1 = Inr st2" "frame st1 st2" "sound_refs st2" "note_list st2 = note_list st1"
    by blast
  show ?case using 1 2 frame_trans[OF 1(2) 2(2)] by simp
qed

lemma get_filtered_notes_frame:
  assumes "sound_refs st"
  shows "frame st (get_filtered_notes c st) \<and> sound_refs (get_filtered_notes c st)"
  using assms
  by (auto simp: frame_def sound_refs_def get_filtered_notes_def intro: exI[of _ "[]"])

lemma print_frame: "frame st (st\<lparr>out := out st @ [Print m]\<rparr>)"
  by (auto simp: frame_def intro: exI[of _ "[m]"])

lemma print_sound: "sound_refs st \<Longrightarrow> sound_refs (st\<lparr>out := out st @ [Print m]\<rparr>)"
  by (simp add: sound_refs_def)

lemma run_loop_frame:
  "sound_refs st \<Longrightarrow> run_loop lib evs st = (r, st') \<Longrightarrow> frame st st' \<and> sound_refs st'"
proof (induction evs arbitrary: st)
  case Nil
  then show ?case by (simp add: frame_refl)
next
  case (Cons e evs)
  show ?case
  proof (cases e)
    case (Diag m)
    let ?s = "st\<lparr>out := out st @ [Print m]\<rparr>"
    have "run_loop lib evs ?s = (r, st')" using Cons.prems(2) Diag by simp
    from Cons.IH[OF print_sound[OF Cons.prems(1)] this]
    show ?thesis using frame_trans[OF print_frame] by blast
  next
    case (GenRaise x)
    then show ?thesis using Cons.prems by (simp add: frame_refl)
  next
    case (Yield tag props)
    show ?thesis
    proof (cases "\<not> truthy tag \<or> \<not> truthy_list props")
      case True
      then have "run_loop lib evs st = (r, st')" using Cons.prems(2) Yield by simp
      from Cons.IH[OF Cons.prems(1) this] show ?thesis .
    next
      case False
      let ?s1 = "get_filtered_notes [(YStr ''tags'', tag)] st"
      have f1: "frame st ?s1" and s1: "sound_refs ?s1"
        using get_filtered_notes_frame[OF Cons.prems(1)] by auto
      show ?thesis
      proof (cases "note_list ?s1 = []")
        case True
        then have "run_loop lib evs ?s1 = (r, st')"
          using Cons.prems(2) Yield False by (simp add: Let_def)
        from Cons.IH[OF s1 this] show ?thesis using frame_trans[OF f1] by blast
      next
        case ne: False
        obtain st2 where 2:
          "run_notes lib (case props of Some ps \<Rightarrow> ps | None \<Rightarrow> []) (note_list ?s1) ?s1 = Inr st2"
          "frame ?s1 st2" "sound_refs st2"
          using run_notes_frame[OF s1 subset_refl] by blast
        have "run_loop lib evs st2 = (r, st')"
          using Cons.prems(2) Yield False ne 2(1) by (simp add: Let_def)
        from Cons.IH[OF 2(3) this] show ?thesis
          using frame_trans[OF f1 frame_trans[OF 2(2)]] by blast
      qed
    qed
  qed
qed


subsection \<open>Loading the configuration\<close>

text \<open>
  Each of the three failures of loading prints its own line and ends the process with
  status -1 from inside \<^verbatim>\<open>_load_yaml\<close>. The processor is then never run: the
  session is empty, the disk is as it was and there is no archive.
\<close>

lemma load_failure_exits:
  "load_yaml p FileNotFound = ([ErrFileNotFound p], Exited (- 1)) \<and>
   load_yaml p YamlError = ([ErrYamlUnreadable p], Exited (- 1)) \<and>
   load_yaml p (OtherFailure e) = ([ErrOther e], Exited (- 1)) \<and>
   ErrFileNotFound p \<noteq> ErrYamlUnreadable p \<and> ErrFileNotFound p \<noteq> ErrOther e \<and>
   ErrYamlUnreadable p \<noteq> ErrOther e \<and>
   construct_and_run lib vault p FileNotFound ev =
     (Exited (- 1), (load_notes vault)\<lparr>out := [Print (ErrFileNotFound p)]\<rparr>) \<and>
   construct_and_run lib vault p YamlError ev =
     (Exited (- 1), (load_notes vault)\<lparr>out := [Print (ErrYamlUnreadable p)]\<rparr>) \<and>
   construct_and_run lib vault p (OtherFailure e) ev =
     (Exited (- 1), (load_notes vault)\<lparr>out := [Print (ErrOther e)]\<rparr>) \<and>
   all_changes (load_notes vault) = [] \<and> disk (load_notes vault) = map_of vault \<and>
   archive (load_notes vault) = None"
  by (simp add: construct_and_run_def load_notes_def)


text \<open>
  C6: a missing configuration file. The docstrings of \<^verbatim>\<open>ConfigManager.__init__\<close>
  and of \<^verbatim>\<open>_load_yaml\<close> say that \<open>FileNotFoundError\<close> is raised to the caller; the
  handler prints the line and ends the process with status -1, so that nothing comes
  back to the caller of the constructor and the run of the small vault ends there.
\<close>

theorem load_yaml_missing_file_exits:
  "load_yaml ''config.yaml'' FileNotFound =
     ([ErrFileNotFound ''config.yaml''], Exited (- 1)) \<and>
   terminates_process (snd (load_yaml ''config.yaml'' FileNotFound)) \<and>
   construct_and_run add_appends draft_vault ''config.yaml'' FileNotFound
       \<lparr>confirm = Acknowledge, backup = ArchiveOk\<rparr> =
     (Exited (- 1), (load_notes draft_vault)\<lparr>out := [Print (ErrFileNotFound ''config.yaml'')]\<rparr>)"
  using load_failure_exits [of "''config.yaml''" "[]" add_appends draft_vault
      "\<lparr>confirm = Acknowledge, backup = ArchiveOk\<rparr>"]
  by simp

subsection \<open>The rule sequence\<close>

text \<open>
  C7, as the code has it: when the configuration has no \<open>tags\<close> key, the generator
  prints one line and yields exactly one pair, \<open>(None, None)\<close>, which the loop of
  \<^verbatim>\<open>run\<close> skips, so the state is as before but for the printed line.
\<close>

theorem no_tags_one_diagnostic_one_skipped_pair:
  assumes "map_of d ''tags'' = None"
  shows "get_next_tag (YDict d) = [Diag ErrNoTags, Yield YNone None] \<and>
         printed (get_next_tag (YDict d)) = [ErrNoTags] \<and>
         yielded (get_next_tag (YDict d)) = [(YNone, None)] \<and>
         run_loop lib (get_next_tag (YDict d)) st = (None, st\<lparr>out := out st @ [Print ErrNoTags]\<rparr>)"
  using assms
  by (simp add: get_next_tag_def dict_get_def dict_get_default_def yielded_def printed_def)

theorem no_tags_one_diagnostic_one_skipped_pair_witness:
  "map_of ([] :: ydict) ''tags'' = None \<and>
   get_next_tag (YDict []) = [Diag ErrNoTags, Yield YNone None] \<and>
   printed (get_next_tag (YDict [])) = [ErrNoTags] \<and>
   yielded (get_next_tag (YDict [])) = [(YNone, None)] \<and>
   run_loop add_appends (get_next_tag (YDict [])) (load_notes []) =
     (None, (load_notes [])\<lparr>out := out (load_notes []) @ [Print ErrNoTags]\<rparr>)"
proof -
  have h: "map_of ([] :: ydict) ''tags'' = None" by simp
  show ?thesis
    using h no_tags_one_diagnostic_one_skipped_pair [OF h, of add_appends "load_notes []"] by blast
qed

text \<open>
  C7 as stated fails: on the empty configuration the pair \<open>(None, None)\<close> is yielded.
\<close>

theorem no_tags_yields_none_pair_counterexample:
  "get_next_tag (YDict []) = [Diag ErrNoTags, Yield YNone None] \<and>
   yielded (get_next_tag (YDict [])) = [(YNone, None)]"
  by (simp add: get_next_tag_def dict_get_def dict_get_default_def yielded_def)

subsection \<open>Validation of property entries\<close>


lemma loop_step_kept:
  "passes_presence_checks d \<Longrightarrow> \<not> py_eq (dict_get d ''new'') (dict_get d ''old'') \<Longrightarrow>
   validate_properties_loop tn (YDict d # xs) acc = validate_properties_loop tn xs (acc @ [d])"
  by (auto simp: Let_def passes_presence_checks_def)

lemma loop_step_dropped:
  "\<not> (passes_presence_checks d \<and> \<not> py_eq (dict_get d ''new'') (dict_get d ''old'')) \<Longrightarrow>
   snd (validate_properties_loop tn (YDict d # xs) acc) = snd (validate_properties_loop tn xs acc)"
  by (auto simp: Let_def passes_presence_checks_def split: prod.split)






lemma loop_acc_kept:
  "validate_properties_loop tn xs acc = (ms, Inr ps) \<Longrightarrow> set acc \<subseteq> set ps"
proof (induction xs arbitrary: acc ms)
  case Nil
  then show ?case by simp
next
  case (Cons x xs)
  show ?case
  proof (cases x)
    case (YDict d)
    show ?thesis
    proof (cases "passes_presence_checks d \<and> \<not> py_eq (dict_get d ''new'') (dict_get d ''old'')")
      case True
      then have "validate_properties_loop tn xs (acc @ [d]) = (ms, Inr ps)"
        using Cons.prems YDict loop_step_kept[of d tn xs acc] by simp
      from Cons.IH[OF this] show ?thesis by simp
    next
      case False
      have "snd (validate_properties_loop tn xs acc) = Inr ps"
        using loop_step_dropped[OF False, of tn xs acc] Cons.prems YDict by simp
      then have "validate_properties_loop tn xs acc = (fst (validate_properties_loop tn xs acc), Inr ps)"
        by (metis prod.collapse)
      from Cons.IH[OF this] show ?thesis .
    qed
  qed (use Cons.prems in simp_all)
qed

text \<open>
  C10: an entry whose action is not empty and is none of \<open>rename\<close>, \<open>add\<close> and
  \<open>remove\<close>, and whose old and new names differ, passes validation without a printed
  line and is in the surviving list; \<^verbatim>\<open>_process_properties\<close> runs no branch for
  it, so the state after it is the state before it: no front-matter changes, no change
  is recorded and no log line is added.
\<close>

theorem unknown_action_accepted_and_silent:
  assumes "truthy (dict_get p ''action'')"
    and "\<not> py_eq (dict_get p ''action'') (YStr ''rename'')"
    and "\<not> py_eq (dict_get p ''action'') (YStr ''add'')"
    and "\<not> py_eq (dict_get p ''action'') (YStr ''remove'')"
    and "\<not> py_eq (dict_get p ''new'') (dict_get p ''old'')"
  shows "validate_properties_loop tn (YDict p # rest) acc =
           validate_properties_loop tn rest (acc @ [p]) \<and>
         (case snd (validate_properties_loop tn (YDict p # rest) acc) of
            Inr ps \<Rightarrow> p \<in> set ps | Inl e \<Rightarrow> True) \<and>
         validate_properties [(''tag'', tn), (''properties'', YList [YDict p])] = ([], Inr [p]) \<and>
         process_properties lib (p # ps) st = process_properties lib ps st \<and>
         process_properties lib [p] st = Inr st"
proof -
  have pc: "passes_presence_checks p" using assms by (simp add: passes_presence_checks_def)
  have 1: "validate_properties_loop tn (YDict p # rest) acc =
           validate_properties_loop tn rest (acc @ [p])"
    using loop_step_kept[OF pc assms(5)] .
  have 2: "case snd (validate_properties_loop tn (YDict p # rest) acc) of
            Inr ps \<Rightarrow> p \<in> set ps | Inl e \<Rightarrow> True"
  proof (cases "snd (validate_properties_loop tn rest (acc @ [p]))")
    case (Inl e)
    then show ?thesis by (simp only: 1 sum.case)
  next
    case (Inr qs)
    then have "validate_properties_loop tn rest (acc @ [p]) =
               (fst (validate_properties_loop tn rest (acc @ [p])), Inr qs)"
      by (metis prod.collapse)
    from loop_acc_kept[OF this] have "p \<in> set qs" by simp
    then show ?thesis using Inr by (simp only: 1 sum.case)
  qed
  have 3: "validate_properties [(''tag'', tn), (''properties'', YList [YDict p])] = ([], Inr [p])"
    using loop_step_kept[OF pc assms(5), of tn "[]" "[]"]
    by (simp add: validate_properties_def dict_get_def dict_get_default_def
        del: validate_properties_loop.simps(2))
  have 4: "process_properties lib (p # ps) st = process_properties lib ps st" for ps
    using assms(2-4) by (simp add: Let_def)
  show ?thesis using 1 2 3 4 4[of "[]"] by simp
qed

theorem unknown_action_accepted_and_silent_witness:
  "truthy (dict_get [(''action'', YStr ''delete''), (''old'', YStr ''status'')] ''action'') \<and>
   \<not> py_eq (dict_get [(''action'', YStr ''delete''), (''old'', YStr ''status'')] ''action'')
        (YStr ''rename'') \<and>
   \<not> py_eq (dict_get [(''action'', YStr ''delete''), (''old'', YStr ''status'')] ''action'')
        (YStr ''add'') \<and>
   \<not> py_eq (dict_get [(''action'', YStr ''delete''), (''old'', YStr ''status'')] ''action'')
        (YStr ''remove'') \<and>
   \<not> py_eq (dict_get [(''action'', YStr ''delete''), (''old'', YStr ''status'')] ''new'')
        (dict_get [(''action'', YStr ''delete''), (''old'', YStr ''status'')] ''old'') \<and>
   validate_properties
     [(''tag'', YStr ''draft''),
      (''properties'', YList [YDict [(''action'', YStr ''delete''), (''old'', YStr ''status'')]])] =
     ([], Inr [[(''action'', YStr ''delete''), (''old'', YStr ''status'')]]) \<and>
   process_properties add_appends [[(''action'', YStr ''delete''), (''old'', YStr ''status'')]] at_first_note =
     Inr at_first_note"
proof -
  let ?p = "[(''action'', YStr ''delete''), (''old'', YStr ''status'')]"
  have h: "truthy (dict_get ?p ''action'')"
    "\<not> py_eq (dict_get ?p ''action'') (YStr ''rename'')"
    "\<not> py_eq (dict_get ?p ''action'') (YStr ''add'')"
    "\<not> py_eq (dict_get ?p ''action'') (YStr ''remove'')"
    "\<not> py_eq (dict_get ?p ''new'') (dict_get ?p ''old'')"
    by (simp_all add: dict_get_def dict_get_default_def)
  show ?thesis
    using h unknown_action_accepted_and_silent [OF h, of "YStr ''draft''" "[]" "[]" add_appends "[]" at_first_note]
    by blast
qed

subsection \<open>The operations on one document\<close>




text \<open>
  C4: an entry with action \<open>add\<close> on the current note is
  \<^verbatim>\<open>_add_property(prop.get("new"), prop.get("default"))\<close>, and without a
  \<open>default\<close> key the value handed over is \<open>None\<close>, the empty value. When the name is
  not in the front-matter it is set to that value and one change is recorded; applying
  the same entry again then changes nothing and adds an \<open>already exists\<close> line. When
  the name is there, the front-matter stays, no change is recorded and one
  \<open>already exists\<close> line is added.
\<close>

theorem add_property_effect:
  assumes "current_note st = Some n" and "py_eq (dict_get p ''action'') (YStr ''add'')"
  shows "process_properties lib [p] st =
           add_property lib (dict_get p ''new'') (dict_get p ''default'') st \<and>
         (map_of p ''default'' = None \<longrightarrow> dict_get p ''default'' = YNone) \<and>
         (dicts st (metadata n) (dict_get p ''new'') = None \<longrightarrow>
            process_properties lib [p] st =
              Inr (st\<lparr>dicts := (dicts st)(metadata n :=
                         (dicts st (metadata n))(dict_get p ''new'' \<mapsto> dict_get p ''default'')),
                      trackers := (trackers st)(change_tracker st :=
                         (trackers st (change_tracker st))
                           \<lparr>changes := changes (trackers st (change_tracker st)) @
                              [\<lparr>c_action = ''add'', c_old_property = YNone,
                                c_new_property = dict_get p ''new'', c_old_value = YNone,
                                c_new_value = dict_get p ''default''\<rparr>]\<rparr>)\<rparr>) \<and>
            process_properties lib [p, p] st =
              Inr (st\<lparr>dicts := (dicts st)(metadata n :=
                         (dicts st (metadata n))(dict_get p ''new'' \<mapsto> dict_get p ''default'')),
                      trackers := (trackers st)(change_tracker st :=
                         (trackers st (change_tracker st))
                           \<lparr>changes := changes (trackers st (change_tracker st)) @
                              [\<lparr>c_action = ''add'', c_old_property = YNone,
                                c_new_property = dict_get p ''new'', c_old_value = YNone,
                                c_new_value = dict_get p ''default''\<rparr>],
                            logs := logs (trackers st (change_tracker st)) @
                              [LogAlreadyExists (dict_get p ''new'')]\<rparr>)\<rparr>)) \<and>
         (dicts st (metadata n) (dict_get p ''new'') \<noteq> None \<longrightarrow>
            process_properties lib [p] st =
              Inr (st\<lparr>trackers := (trackers st)(change_tracker st :=
                         (trackers st (change_tracker st))
                           \<lparr>logs := logs (trackers st (change_tracker st)) @
                              [LogAlreadyExists (dict_get p ''new'')]\<rparr>)\<rparr>))"
  using assms
  by (auto simp: add_property_def md_has_def md_add_def update_tracker_def add_change_def
      add_log_def Let_def dict_get_def dict_get_default_def)

theorem add_property_effect_witness:
  "current_note at_first_note = Some \<lparr>path = ''a.md'', metadata = 0\<rparr> \<and>
   py_eq (dict_get [(''action'', YStr ''add''), (''new'', YStr ''owner'')] ''action'') (YStr ''add'') \<and>
   map_of [(''action'', YStr ''add''), (''new'', YStr ''owner'')] ''default'' = None \<and>
   dicts at_first_note 0 (YStr ''owner'') = None \<and>
   dicts at_first_note 0 (YStr ''status'') \<noteq> None \<and>
   (case process_properties add_appends [[(''action'', YStr ''add''), (''new'', YStr ''owner'')]] at_first_note of
      Inl e \<Rightarrow> False
    | Inr st' \<Rightarrow>
        dicts st' 0 (YStr ''owner'') = Some YNone \<and>
        changes (trackers st' 0) =
          [\<lparr>c_action = ''add'', c_old_property = YNone, c_new_property = YStr ''owner'',
            c_old_value = YNone, c_new_value = YNone\<rparr>] \<and>
        logs (trackers st' 0) = []) \<and>
   (case process_properties add_appends
           [[(''action'', YStr ''add''), (''new'', YStr ''status''), (''default'', YStr ''x'')]]
           at_first_note of
      Inl e \<Rightarrow> False
    | Inr st' \<Rightarrow>
        dicts st' = dicts at_first_note \<and>
        changes (trackers st' 0) = [] \<and>
        logs (trackers st' 0) = [LogAlreadyExists (YStr ''status'')])"
  using add_property_effect [of at_first_note "\<lparr>path = ''a.md'', metadata = 0\<rparr>"
          "[(''action'', YStr ''add''), (''new'', YStr ''owner'')]" add_appends]
        add_property_effect [of at_first_note "\<lparr>path = ''a.md'', metadata = 0\<rparr>"
          "[(''action'', YStr ''add''), (''new'', YStr ''status''), (''default'', YStr ''x'')]" add_appends]
  by (simp add: at_first_note_def load_notes_def draft_vault_def dict_get_def dict_get_default_def
      add_property_def md_has_def md_add_def update_tracker_def add_change_def add_log_def Let_def)


subsection \<open>The end of the run\<close>

lemma ready_fields:
  "note_list (ready vault) = note_list (load_notes vault)"
  "all_changes (ready vault) = []"
  "next_dict (ready vault) = length vault + 2"
  "disk (ready vault) = map_of vault"
  "archive (ready vault) = None"
  "out (ready vault) = []"
  by (simp_all add: ready_def new_tracker_def alloc_dict_def alloc_tracker_def load_notes_def)

lemma sound_refs_ready: "sound_refs (ready vault)"
  by (auto simp: sound_refs_def ready_fields load_notes_def)

lemma construct_and_run_parsed:
  "construct_and_run lib vault yp (Parsed yaml) ev = run lib ev yaml (ready vault)"
  by (simp add: construct_and_run_def ready_def load_notes_def split: prod.split)

lemma pab_prints [simp]:
  "persist_after_backup b (map Print ms @ evs) = persist_after_backup b evs"
  by (induction ms) simp_all

lemma pab_summaries [simp]:
  "persist_after_backup b (map ShowSummary xs @ evs) = persist_after_backup b evs"
  by (induction xs) simp_all

lemma pab_prints_only [simp]: "persist_after_backup b (map Print ms)"
  using pab_prints[of b ms "[]"] by simp

lemma no_persist_prints [simp]: "\<not> list_ex persists (map Print ms)"
  by (induction ms) simp_all

lemma no_persist_summaries [simp]: "\<not> list_ex persists (map ShowSummary xs)"
  by (induction xs) simp_all

lemma prints_image [simp]:
  "ArchiveFailed \<notin> Print ` A" "ArchiveCreated \<notin> Print ` A" "Input \<notin> Print ` A"
  "ArchiveFailed \<notin> ShowSummary ` B" "ArchiveCreated \<notin> ShowSummary ` B" "Input \<notin> ShowSummary ` B"
  by auto

lemma finish_props:
  assumes "out st = map Print ms"
  shows "persist_after_backup False (out (snd (finish ev st)))"
    and "list_ex persists (out (snd (finish ev st))) \<longrightarrow>
           confirm ev = Acknowledge \<and> backup ev = ArchiveOk \<and>
           archive (snd (finish ev st)) = Some (disk st)"
    and "backup ev \<noteq> ArchiveOk \<or> confirm ev \<noteq> Acknowledge \<longrightarrow>
           \<not> list_ex persists (out (snd (finish ev st))) \<and>
           ArchiveCreated \<notin> set (out (snd (finish ev st))) \<and>
           disk (snd (finish ev st)) = disk st \<and>
           archive (snd (finish ev st)) = archive st"
    and "ArchiveFailed \<in> set (out (snd (finish ev st))) \<longrightarrow>
           fst (finish ev st) = Exited (- 1) \<or> fst (finish ev st) = Raised KeyboardInterrupt"
    and "Input \<in> set (out (snd (finish ev st)))"
    and "confirm ev = Interrupt \<longrightarrow> fst (finish ev st) = Returned ()"
  using assms
  by (cases "confirm ev"; cases "backup ev";
      simp add: finish_def backup_vault_def write_notes_def Let_def)+

lemma run_props:
  assumes "sound_refs st" "out st = []"
  shows "persist_after_backup False (out (snd (run lib ev yaml st)))"
    and "list_ex persists (out (snd (run lib ev yaml st))) \<longrightarrow>
           confirm ev = Acknowledge \<and> backup ev = ArchiveOk \<and>
           archive (snd (run lib ev yaml st)) = Some (disk st)"
    and "backup ev \<noteq> ArchiveOk \<or> confirm ev \<noteq> Acknowledge \<longrightarrow>
           \<not> list_ex persists (out (snd (run lib ev yaml st))) \<and>
           ArchiveCreated \<notin> set (out (snd (run lib ev yaml st))) \<and>
           disk (snd (run lib ev yaml st)) = disk st \<and>
           archive (snd (run lib ev yaml st)) = archive st"
    and "ArchiveFailed \<in> set (out (snd (run lib ev yaml st))) \<longrightarrow>
           fst (run lib ev yaml st) = Exited (- 1) \<or> fst (run lib ev yaml st) = Raised KeyboardInterrupt"
    and "confirm ev = Interrupt \<and> Input \<in> set (out (snd (run lib ev yaml st))) \<longrightarrow>
           fst (run lib ev yaml st) = Returned ()"
proof -
  obtain r st' where rl: "run_loop lib (get_next_tag yaml) st = (r, st')" by (cases "run_loop lib (get_next_tag yaml) st")
  from run_loop_frame[OF assms(1) rl] have f: "frame st st'" by simp
  then obtain ms where o: "out st' = map Print ms" using assms(2) by (auto simp: frame_def)
  have d: "disk st' = disk st" "archive st' = archive st" using f by (auto simp: frame_def)
  show "persist_after_backup False (out (snd (run lib ev yaml st)))"
    using finish_props(1)[OF o] o by (cases r) (simp_all add: run_def rl)
  show "list_ex persists (out (snd (run lib ev yaml st))) \<longrightarrow>
           confirm ev = Acknowledge \<and> backup ev = ArchiveOk \<and>
           archive (snd (run lib ev yaml st)) = Some (disk st)"
    using finish_props(2)[OF o] o d by (cases r) (simp_all add: run_def rl)
  show "backup ev \<noteq> ArchiveOk \<or> confirm ev \<noteq> Acknowledge \<longrightarrow>
           \<not> list_ex persists (out (snd (run lib ev yaml st))) \<and>
           ArchiveCreated \<notin> set (out (snd (run lib ev yaml st))) \<and>
           disk (snd (run lib ev yaml st)) = disk st \<and>
           archive (snd (run lib ev yaml st)) = archive st"
    using finish_props(3)[OF o] o d by (cases r) (simp_all add: run_def rl)
  show "ArchiveFailed \<in> set (out (snd (run lib ev yaml st))) \<longrightarrow>
           fst (run lib ev yaml st) = Exited (- 1) \<or> fst (run lib ev yaml st) = Raised KeyboardInterrupt"
    using finish_props(4)[OF o] o by (cases r) (simp_all add: run_def rl)
  show "confirm ev = Interrupt \<and> Input \<in> set (out (snd (run lib ev yaml st))) \<longrightarrow>
           fst (run lib ev yaml st) = Returned ()"
    using finish_props(6)[OF o] o by (cases r) (simp_all add: run_def rl)
qed

lemmas run_defs = construct_and_run_def load_notes_def run_def get_next_tag_def
  dict_get_def dict_get_default_def validate_tag_def validate_properties_def new_tracker_def
  alloc_dict_def alloc_tracker_def Let_def get_filtered_notes_def has_meta_def run_note_def
  deepcopy_def update_tracker_def rename_property_def add_property_def remove_property_def
  md_has_def md_get_def md_add_def md_remove_def add_change_def add_log_def finish_def
  backup_vault_def write_notes_def

text \<open>
  C1: in every run, from the construction of the processor on, a call that persists
  comes only after the archive has been made; persisting implies that the operator
  acknowledged, that the archive was created and that it holds what was on disk before.
  When the archive cannot be made, nothing is persisted, the disk is as it was and there
  is no archive; and when its creation was tried and failed, the run ends by
  \<^verbatim>\<open>exit(-1)\<close>, or by the interrupt that stopped the archiving.
\<close>

theorem persistence_only_after_backup:
  "persist_after_backup False (out (snd (construct_and_run lib vault yp rd ev))) \<and>
   (list_ex persists (out (snd (construct_and_run lib vault yp rd ev))) \<longrightarrow>
      confirm ev = Acknowledge \<and> backup ev = ArchiveOk \<and>
      archive (snd (construct_and_run lib vault yp rd ev)) = Some (map_of vault)) \<and>
   (backup ev \<noteq> ArchiveOk \<longrightarrow>
      \<not> list_ex persists (out (snd (construct_and_run lib vault yp rd ev))) \<and>
      disk (snd (construct_and_run lib vault yp rd ev)) = map_of vault \<and>
      archive (snd (construct_and_run lib vault yp rd ev)) = None) \<and>
   (ArchiveFailed \<in> set (out (snd (construct_and_run lib vault yp rd ev))) \<longrightarrow>
      fst (construct_and_run lib vault yp rd ev) = Exited (- 1) \<or>
      fst (construct_and_run lib vault yp rd ev) = Raised KeyboardInterrupt)"
proof (cases rd)
  case (Parsed yaml)
  have s: "sound_refs (ready vault)" "out (ready vault) = []"
    by (simp_all add: sound_refs_ready ready_fields)
  show ?thesis
    using run_props(1)[OF s, where lib = lib and ev = ev and yaml = yaml] run_props(2)[OF s, where lib = lib and ev = ev and yaml = yaml]
      run_props(3)[OF s, where lib = lib and ev = ev and yaml = yaml] run_props(4)[OF s, where lib = lib and ev = ev and yaml = yaml]
    by (simp add: Parsed construct_and_run_parsed ready_fields)
qed (simp_all add: construct_and_run_def load_notes_def)

theorem persistence_only_after_backup_witness:
  "backup \<lparr>confirm = Acknowledge, backup = ArchiveFails ''disk full''\<rparr> \<noteq> ArchiveOk \<and>
   ArchiveFailed \<in> set (out (snd (construct_and_run add_appends draft_vault ''c.yaml'' (Parsed draft_config)
      \<lparr>confirm = Acknowledge, backup = ArchiveFails ''disk full''\<rparr>))) \<and>
   \<not> list_ex persists (out (snd (construct_and_run add_appends draft_vault ''c.yaml'' (Parsed draft_config)
      \<lparr>confirm = Acknowledge, backup = ArchiveFails ''disk full''\<rparr>))) \<and>
   disk (snd (construct_and_run add_appends draft_vault ''c.yaml'' (Parsed draft_config)
      \<lparr>confirm = Acknowledge, backup = ArchiveFails ''disk full''\<rparr>)) = map_of draft_vault \<and>
   fst (construct_and_run add_appends draft_vault ''c.yaml'' (Parsed draft_config)
      \<lparr>confirm = Acknowledge, backup = ArchiveFails ''disk full''\<rparr>) = Exited (- 1) \<and>
   list_ex persists (out (snd (construct_and_run add_appends draft_vault ''c.yaml'' (Parsed draft_config)
      \<lparr>confirm = Acknowledge, backup = ArchiveOk\<rparr>))) \<and>
   archive (snd (construct_and_run add_appends draft_vault ''c.yaml'' (Parsed draft_config)
      \<lparr>confirm = Acknowledge, backup = ArchiveOk\<rparr>)) = Some (map_of draft_vault)"
proof -
  let ?bad = "\<lparr>confirm = Acknowledge, backup = ArchiveFails ''disk full''\<rparr>"
  let ?ok = "\<lparr>confirm = Acknowledge, backup = ArchiveOk\<rparr>"
  have 1: "backup ?bad \<noteq> ArchiveOk" by simp
  have 2: "ArchiveFailed \<in> set (out (snd (construct_and_run add_appends draft_vault ''c.yaml''
             (Parsed draft_config) ?bad)))"
    by (simp add: draft_vault_def draft_config_def run_defs)
  have 3: "fst (construct_and_run add_appends draft_vault ''c.yaml'' (Parsed draft_config) ?bad) = Exited (- 1)"
    by (simp add: draft_vault_def draft_config_def run_defs)
  have 4: "list_ex persists (out (snd (construct_and_run add_appends draft_vault ''c.yaml''
             (Parsed draft_config) ?ok)))"
    by (simp add: draft_vault_def draft_config_def run_defs)
  show ?thesis
    using 1 2 3 4
      persistence_only_after_backup [of add_appends draft_vault "''c.yaml''" "Parsed draft_config" ?bad]
      persistence_only_after_backup [of add_appends draft_vault "''c.yaml''" "Parsed draft_config" ?ok]
    by blast
qed

text \<open>
  C2: when the operator interrupts at the prompt, \<^verbatim>\<open>_finish\<close> shows the
  summaries, prompts, prints the cancellation line and returns; and a whole run with
  that answer leaves the disk as it was, makes no archive and persists nothing, and
  returns normally once it has reached the prompt.
\<close>

theorem cancellation_leaves_no_trace:
  assumes "confirm ev = Interrupt"
  shows "finish ev st =
           (Returned (),
            st\<lparr>out := out st @ map ShowSummary (all_changes st) @ [Input, Print MsgCancelled]\<rparr>) \<and>
         disk (snd (construct_and_run lib vault yp rd ev)) = map_of vault \<and>
         archive (snd (construct_and_run lib vault yp rd ev)) = None \<and>
         ArchiveCreated \<notin> set (out (snd (construct_and_run lib vault yp rd ev))) \<and>
         \<not> list_ex persists (out (snd (construct_and_run lib vault yp rd ev))) \<and>
         (Input \<in> set (out (snd (construct_and_run lib vault yp rd ev))) \<longrightarrow>
            fst (construct_and_run lib vault yp rd ev) = Returned ())"
proof -
  have f: "finish ev st =
           (Returned (),
            st\<lparr>out := out st @ map ShowSummary (all_changes st) @ [Input, Print MsgCancelled]\<rparr>)"
    using assms by (simp add: finish_def)
  have r: "disk (snd (construct_and_run lib vault yp rd ev)) = map_of vault \<and>
         archive (snd (construct_and_run lib vault yp rd ev)) = None \<and>
         ArchiveCreated \<notin> set (out (snd (construct_and_run lib vault yp rd ev))) \<and>
         \<not> list_ex persists (out (snd (construct_and_run lib vault yp rd ev))) \<and>
         (Input \<in> set (out (snd (construct_and_run lib vault yp rd ev))) \<longrightarrow>
            fst (construct_and_run lib vault yp rd ev) = Returned ())"
  proof (cases rd)
    case (Parsed yaml)
    have s: "sound_refs (ready vault)" "out (ready vault) = []"
      by (simp_all add: sound_refs_ready ready_fields)
    show ?thesis
      using run_props(3)[OF s, where lib = lib and ev = ev and yaml = yaml] run_props(5)[OF s, where lib = lib and ev = ev and yaml = yaml] assms
      by (simp add: Parsed construct_and_run_parsed ready_fields)
  qed (simp_all add: construct_and_run_def load_notes_def)
  show ?thesis using f r by simp
qed

theorem cancellation_leaves_no_trace_witness:
  "confirm \<lparr>confirm = Interrupt, backup = ArchiveOk\<rparr> = Interrupt \<and>
   Input \<in> set (out (snd (construct_and_run add_appends draft_vault ''c.yaml'' (Parsed draft_config)
      \<lparr>confirm = Interrupt, backup = ArchiveOk\<rparr>))) \<and>
   fst (construct_and_run add_appends draft_vault ''c.yaml'' (Parsed draft_config)
      \<lparr>confirm = Interrupt, backup = ArchiveOk\<rparr>) = Returned () \<and>
   disk (snd (construct_and_run add_appends draft_vault ''c.yaml'' (Parsed draft_config)
      \<lparr>confirm = Interrupt, backup = ArchiveOk\<rparr>)) = map_of draft_vault \<and>
   archive (snd (construct_and_run add_appends draft_vault ''c.yaml'' (Parsed draft_config)
      \<lparr>confirm = Interrupt, backup = ArchiveOk\<rparr>)) = None"
proof -
  let ?ev = "\<lparr>confirm = Interrupt, backup = ArchiveOk\<rparr>"
  have 1: "confirm ?ev = Interrupt" by simp
  have 2: "Input \<in> set (out (snd (construct_and_run add_appends draft_vault ''c.yaml''
             (Parsed draft_config) ?ev)))"
    by (simp add: draft_vault_def draft_config_def run_defs)
  show ?thesis
    using 1 2 cancellation_leaves_no_trace [OF 1, of "load_notes []" add_appends draft_vault "''c.yaml''"
        "Parsed draft_config"]
    by blast
qed


subsection \<open>Selection of documents\<close>

lemma process_properties_note_list:
  assumes "process_properties lib ps st = Inr st'" "current_note st = Some n"
  shows "note_list st' = note_list st"
  using process_properties_touch[OF assms(2), of lib ps] assms(1) by (auto simp: touch_def)

lemma run_note_note_list:
  assumes "run_note lib ps n st = Inr st'"
  shows "note_list st' = note_list st"
proof -
  define st5 where "st5 =
     (let st1 = st\<lparr>current_note := Some n\<rparr>;
          (ta, st2) = new_tracker (path n) st1;
          st3 = st2\<lparr>change_tracker := ta\<rparr>;
          (a, st4) = deepcopy (metadata n) st3
      in update_tracker (\<lambda>t. t\<lparr>old_frontmatter := a\<rparr>) st4)"
  have c: "current_note st5 = Some n" and nl: "note_list st5 = note_list st"
    by (simp_all add: st5_def new_tracker_def alloc_dict_def alloc_tracker_def deepcopy_def
        update_tracker_def Let_def)
  have rn: "run_note lib ps n st =
     (case process_properties lib ps st5 of
           Inl e \<Rightarrow> Inl e
         | Inr st6 \<Rightarrow>
             (case current_note st6 of
                None \<Rightarrow> Inl AttributeError
              | Some c \<Rightarrow>
                  (let (b, st7) = deepcopy (metadata c) st6;
                       st8 = update_tracker (\<lambda>t. t\<lparr>new_frontmatter := b\<rparr>) st7
                   in Inr (st8\<lparr>all_changes := all_changes st8 @ [change_tracker st8]\<rparr>))))"
    by (simp add: run_note_def st5_def Let_def split: prod.split)
  obtain st6 where p: "process_properties lib ps st5 = Inr st6"
    using process_properties_touch[OF c, of lib ps] by blast
  have "note_list st6 = note_list st" using process_properties_note_list[OF p c] nl by simp
  then show ?thesis
    using assms
    by (auto simp: rn p deepcopy_def alloc_dict_def update_tracker_def Let_def
        split: option.splits)
qed

lemma run_notes_note_list:
  "run_notes lib ps ns st = Inr st' \<Longrightarrow> note_list st' = note_list st"
proof (induction ns arbitrary: st)
  case Nil
  then show ?case by simp
next
  case (Cons n ns)
  then show ?case
    by (auto split: sum.splits dest: run_note_note_list)
qed

lemma run_loop_note_list:
  "set (note_list (snd (run_loop lib evs st))) \<subseteq> set (note_list st)"
proof (induction evs arbitrary: st)
  case Nil
  then show ?case by simp
next
  case (Cons e evs)
  show ?case
  proof (cases e)
    case (Diag m)
    then show ?thesis using Cons.IH[of "st\<lparr>out := out st @ [Print m]\<rparr>"] by simp
  next
    case (GenRaise x)
    then show ?thesis by simp
  next
    case (Yield tag props)
    let ?s1 = "get_filtered_notes [(YStr ''tags'', tag)] st"
    have f: "set (note_list ?s1) \<subseteq> set (note_list st)"
      by (auto simp: get_filtered_notes_def)
    show ?thesis
    proof (cases "run_notes lib (case props of Some ps \<Rightarrow> ps | None \<Rightarrow> []) (note_list ?s1) ?s1")
      case (Inl e)
      then show ?thesis using Yield f Cons.IH[of st] Cons.IH[of ?s1]
        by (auto simp: Let_def)
    next
      case (Inr st2)
      have "note_list st2 = note_list ?s1" using run_notes_note_list[OF Inr] .
      then show ?thesis using Yield f Inr Cons.IH[of st] Cons.IH[of ?s1] Cons.IH[of st2]
        by (auto simp: Let_def)
    qed
  qed
qed

lemma fold_write_other:
  "p \<notin> path ` set ns \<Longrightarrow> fold (\<lambda>n d. d(path n \<mapsto> f n)) ns d p = d p"
  by (induction ns arbitrary: d) auto

text \<open>
  C5: \<^verbatim>\<open>_get_filtered_notes\<close> leaves in the processor's collection the notes that
  meet the criteria, and that collection is what it returns. Whatever the rules, the
  collection after the loop holds only notes it held before. A rule with a tag and with
  operations selects from the collection as the earlier rules left it, and runs on what
  it selects. On confirmation with the archive made, what is written is the
  front-matter of the notes of the collection as the rules left it, and the file of a
  document that is no longer in the collection is never written.
\<close>

theorem selection_is_cumulative:
  "note_list (get_filtered_notes c st) =
     filter (\<lambda>n. list_all (has_meta (dicts st (metadata n))) c) (note_list st) \<and>
   set (note_list (snd (run_loop lib evs st))) \<subseteq> set (note_list st) \<and>
   (truthy tag \<and> ps \<noteq> [] \<longrightarrow>
      run_loop lib (Yield tag (Some ps) # evs) st =
        (let st1 = st\<lparr>note_list :=
                      filter (\<lambda>n. has_meta (dicts st (metadata n)) (YStr ''tags'', tag))
                        (note_list st)\<rparr>
         in if note_list st1 = [] then run_loop lib evs st1
            else case run_notes lib ps (note_list st1) st1 of
                   Inl e \<Rightarrow> (Some e, st1)
                 | Inr st2 \<Rightarrow> run_loop lib evs st2)) \<and>
   (confirm ev = Acknowledge \<and> backup ev = ArchiveOk \<longrightarrow>
      disk (snd (finish ev st)) =
        fold (\<lambda>n d. d(path n \<mapsto> dicts st (metadata n))) (note_list st) (disk st)) \<and>
   (p \<notin> path ` set (note_list st) \<longrightarrow> disk (snd (finish ev st)) p = disk st p)"
proof -
  have 1: "note_list (get_filtered_notes c st) =
     filter (\<lambda>n. list_all (has_meta (dicts st (metadata n))) c) (note_list st)"
    by (simp add: get_filtered_notes_def)
  have 3: "truthy tag \<and> ps \<noteq> [] \<longrightarrow>
      run_loop lib (Yield tag (Some ps) # evs) st =
        (let st1 = st\<lparr>note_list :=
                      filter (\<lambda>n. has_meta (dicts st (metadata n)) (YStr ''tags'', tag))
                        (note_list st)\<rparr>
         in if note_list st1 = [] then run_loop lib evs st1
            else case run_notes lib ps (note_list st1) st1 of
                   Inl e \<Rightarrow> (Some e, st1)
                 | Inr st2 \<Rightarrow> run_loop lib evs st2)"
    by (simp add: get_filtered_notes_def Let_def)
  have 4: "confirm ev = Acknowledge \<and> backup ev = ArchiveOk \<longrightarrow>
      disk (snd (finish ev st)) =
        fold (\<lambda>n d. d(path n \<mapsto> dicts st (metadata n))) (note_list st) (disk st)"
    by (simp add: finish_def backup_vault_def write_notes_def Let_def)
  have 5: "p \<notin> path ` set (note_list st) \<longrightarrow> disk (snd (finish ev st)) p = disk st p"
    by (cases "confirm ev"; cases "backup ev")
       (simp_all add: finish_def backup_vault_def write_notes_def Let_def fold_write_other)
  show ?thesis using 1 run_loop_note_list[of lib evs st] 3 4 5 by blast
qed

theorem selection_is_cumulative_witness:
  "truthy (YStr ''beta'') \<and>
   [[(''action'', YStr ''add''), (''new'', YStr ''y'')]] \<noteq> ([] :: ydict list) \<and>
   confirm \<lparr>confirm = Acknowledge, backup = ArchiveOk\<rparr> = Acknowledge \<and>
   backup \<lparr>confirm = Acknowledge, backup = ArchiveOk\<rparr> = ArchiveOk \<and>
   set (note_list (snd (run_loop add_appends (get_next_tag two_rules) (ready two_tag_vault))))
     \<subseteq> set (note_list (ready two_tag_vault)) \<and>
   map path (note_list (ready two_tag_vault)) = [''a.md'', ''b.md''] \<and>
   note_list (snd (run_loop add_appends (get_next_tag two_rules) (ready two_tag_vault))) = [] \<and>
   ''b.md'' \<notin> path ` set (note_list (snd (run_loop add_appends (get_next_tag two_rules) (ready two_tag_vault)))) \<and>
   map (\<lambda>a. filename (trackers (snd (run_loop add_appends (get_next_tag two_rules) (ready two_tag_vault))) a))
     (all_changes (snd (run_loop add_appends (get_next_tag two_rules) (ready two_tag_vault)))) = [''a.md''] \<and>
   fst (construct_and_run add_appends two_tag_vault ''c.yaml'' (Parsed two_rules)
          \<lparr>confirm = Acknowledge, backup = ArchiveOk\<rparr>) = Returned () \<and>
   disk (snd (construct_and_run add_appends two_tag_vault ''c.yaml'' (Parsed two_rules)
          \<lparr>confirm = Acknowledge, backup = ArchiveOk\<rparr>)) = map_of two_tag_vault"
proof -
  let ?ev = "\<lparr>confirm = Acknowledge, backup = ArchiveOk\<rparr>"
  let ?st = "snd (run_loop add_appends (get_next_tag two_rules) (ready two_tag_vault))"
  let ?ps = "[[(''action'', YStr ''add''), (''new'', YStr ''y'')]]"
  have e: "truthy (YStr ''beta'')" "?ps \<noteq> []" "confirm ?ev = Acknowledge"
    "backup ?ev = ArchiveOk"
    by simp_all
  have n0: "map path (note_list (ready two_tag_vault)) = [''a.md'', ''b.md'']"
    by (simp add: ready_def two_tag_vault_def run_defs)
  have n1: "note_list ?st = []"
    by (simp add: ready_def two_tag_vault_def two_rules_def run_defs)
  have n2: "''b.md'' \<notin> path ` set (note_list ?st)" using n1 by simp
  have t1: "map (\<lambda>a. filename (trackers ?st a)) (all_changes ?st) = [''a.md'']"
    by (simp add: ready_def two_tag_vault_def two_rules_def run_defs)
  have r: "fst (construct_and_run add_appends two_tag_vault ''c.yaml'' (Parsed two_rules) ?ev) = Returned ()"
    by (simp add: two_tag_vault_def two_rules_def run_defs)
  have l: "fst (run_loop add_appends (get_next_tag two_rules) (ready two_tag_vault)) = None"
    by (simp add: ready_def two_tag_vault_def two_rules_def run_defs)
  have c: "construct_and_run add_appends two_tag_vault ''c.yaml'' (Parsed two_rules) ?ev = finish ?ev ?st"
    using l by (cases "run_loop add_appends (get_next_tag two_rules) (ready two_tag_vault)")
      (simp add: construct_and_run_parsed run_def)
  have d0: "disk ?st = map_of two_tag_vault"
    using run_loop_frame[OF sound_refs_ready, of add_appends "get_next_tag two_rules" two_tag_vault
        "fst (run_loop add_appends (get_next_tag two_rules) (ready two_tag_vault))" ?st]
    by (simp add: frame_def ready_fields)
  have d: "disk (snd (construct_and_run add_appends two_tag_vault ''c.yaml'' (Parsed two_rules) ?ev))
             = map_of two_tag_vault"
    using selection_is_cumulative [of "[]" ?st add_appends "[]" "YStr ''beta''" ?ps ?ev "''b.md''"] e n1 d0
    by (simp add: c)
  show ?thesis
    using e n0 n1 n2 t1 r d
      selection_is_cumulative [of "[]" "ready two_tag_vault" add_appends "get_next_tag two_rules"
        "YStr ''beta''" ?ps ?ev "''b.md''"]
    by blast
qed

subsection \<open>The snapshots of a tracker\<close>

lemma finish_stores:
  "dicts (snd (finish ev st)) = dicts st" "trackers (snd (finish ev st)) = trackers st"
  by (cases "confirm ev"; cases "backup ev";
      simp add: finish_def backup_vault_def write_notes_def Let_def)+

lemma frame_keeps_tracker:
  assumes "frame s s'" "sound_refs s" "a \<in> set (all_changes s)"
  shows "trackers s' a = trackers s a \<and>
         dicts s' (old_frontmatter (trackers s a)) = dicts s (old_frontmatter (trackers s a)) \<and>
         dicts s' (new_frontmatter (trackers s a)) = dicts s (new_frontmatter (trackers s a))"
  using assms by (simp add: frame_def sound_refs_def)

text \<open>
  C9: processing a document appends one tracker to the session. Its two snapshots are
  mappings allocated during that processing, different from each other and from the live
  front-matter of the document; the first holds what the front-matter held before the
  operations and the second what it holds after them. Whatever is processed afterwards
  (the other documents of the rule, the later rules, which may select the same document
  again, and the end of the run), the tracker and the content of both snapshots stay as
  they were when the tracker was appended.
\<close>

theorem snapshots_are_independent_copies:
  assumes "sound_refs st" and "n \<in> set (note_list st)"
    and "run_note lib ps n st = Inr st1"
    and "set ns \<subseteq> set (note_list st)" and "run_notes lib ps' ns st1 = Inr st2"
    and "run_loop lib evs st2 = (r, st3)"
    and "finish ev st3 = (oc, st4)"
  shows "\<exists>a. all_changes st1 = all_changes st @ [a] \<and>
           next_dict st \<le> old_frontmatter (trackers st1 a) \<and>
           next_dict st \<le> new_frontmatter (trackers st1 a) \<and>
           old_frontmatter (trackers st1 a) \<noteq> new_frontmatter (trackers st1 a) \<and>
           old_frontmatter (trackers st1 a) \<noteq> metadata n \<and>
           new_frontmatter (trackers st1 a) \<noteq> metadata n \<and>
           dicts st1 (old_frontmatter (trackers st1 a)) = dicts st (metadata n) \<and>
           dicts st1 (new_frontmatter (trackers st1 a)) = dicts st1 (metadata n) \<and>
           trackers st2 a = trackers st1 a \<and>
           trackers st3 a = trackers st1 a \<and>
           trackers st4 a = trackers st1 a \<and>
           dicts st2 (old_frontmatter (trackers st1 a)) = dicts st (metadata n) \<and>
           dicts st3 (old_frontmatter (trackers st1 a)) = dicts st (metadata n) \<and>
           dicts st4 (old_frontmatter (trackers st1 a)) = dicts st (metadata n) \<and>
           dicts st2 (new_frontmatter (trackers st1 a)) = dicts st1 (metadata n) \<and>
           dicts st3 (new_frontmatter (trackers st1 a)) = dicts st1 (metadata n) \<and>
           dicts st4 (new_frontmatter (trackers st1 a)) = dicts st1 (metadata n)"
proof -
  have lt: "metadata n < next_dict st" using assms(1,2) by (simp add: sound_refs_def)
  from run_note_effect[OF lt, of lib ps] assms(3) have
    ac: "all_changes st1 = all_changes st @ [next_tracker st]" and
    ol: "old_frontmatter (trackers st1 (next_tracker st)) = next_dict st + 2" and
    nw: "new_frontmatter (trackers st1 (next_tracker st)) = next_dict st + 3" and
    co: "dicts st1 (next_dict st + 2) = dicts st (metadata n)" and
    cn: "dicts st1 (next_dict st + 3) = dicts st1 (metadata n)"
    by auto
  let ?a = "next_tracker st"
  from run_note_frame[OF assms(1,2), of lib ps] assms(3) have
    s1: "sound_refs st1" and nl1: "note_list st1 = note_list st" by auto
  from run_notes_frame[OF s1, of ns lib ps'] assms(4,5) nl1 have
    f12: "frame st1 st2" and s2: "sound_refs st2" by auto
  from run_loop_frame[OF s2 assms(6)] have f23: "frame st2 st3" by simp
  have f13: "frame st1 st3" using frame_trans[OF f12 f23] .
  have in1: "?a \<in> set (all_changes st1)" using ac by simp
  note k2 = frame_keeps_tracker[OF f12 s1 in1]
  note k3 = frame_keeps_tracker[OF f13 s1 in1]
  have st4: "dicts st4 = dicts st3" "trackers st4 = trackers st3"
    using finish_stores[of ev st3] assms(7) by simp_all
  have "all_changes st1 = all_changes st @ [?a] \<and>
           next_dict st \<le> old_frontmatter (trackers st1 ?a) \<and>
           next_dict st \<le> new_frontmatter (trackers st1 ?a) \<and>
           old_frontmatter (trackers st1 ?a) \<noteq> new_frontmatter (trackers st1 ?a) \<and>
           old_frontmatter (trackers st1 ?a) \<noteq> metadata n \<and>
           new_frontmatter (trackers st1 ?a) \<noteq> metadata n \<and>
           dicts st1 (old_frontmatter (trackers st1 ?a)) = dicts st (metadata n) \<and>
           dicts st1 (new_frontmatter (trackers st1 ?a)) = dicts st1 (metadata n) \<and>
           trackers st2 ?a = trackers st1 ?a \<and>
           trackers st3 ?a = trackers st1 ?a \<and>
           trackers st4 ?a = trackers st1 ?a \<and>
           dicts st2 (old_frontmatter (trackers st1 ?a)) = dicts st (metadata n) \<and>
           dicts st3 (old_frontmatter (trackers st1 ?a)) = dicts st (metadata n) \<and>
           dicts st4 (old_frontmatter (trackers st1 ?a)) = dicts st (metadata n) \<and>
           dicts st2 (new_frontmatter (trackers st1 ?a)) = dicts st1 (metadata n) \<and>
           dicts st3 (new_frontmatter (trackers st1 ?a)) = dicts st1 (metadata n) \<and>
           dicts st4 (new_frontmatter (trackers st1 ?a)) = dicts st1 (metadata n)"
    using ac lt k2 k3 st4 ol nw co cn by simp
  then show ?thesis by blast
qed

theorem snapshots_are_independent_copies_witness:
  "let st = ready draft_vault;
       st1 = projr (run_note add_appends rename_rule first_note st);
       st3 = snd (run_loop add_appends [Yield (YStr ''draft'') (Some owner_rule)] st1);
       st4 = snd (finish \<lparr>confirm = Acknowledge, backup = ArchiveOk\<rparr> st3);
       a = last (all_changes st1)
   in sound_refs st \<and> first_note \<in> set (note_list st) \<and>
      run_note add_appends rename_rule first_note st = Inr st1 \<and>
      run_notes add_appends [] [] st1 = Inr st1 \<and>
      all_changes st1 = [a] \<and>
      trackers st4 a = trackers st1 a \<and>
      dicts st4 (old_frontmatter (trackers st4 a)) (YStr ''status'') = Some (YStr ''todo'') \<and>
      dicts st4 (old_frontmatter (trackers st4 a)) (YStr ''state'') = None \<and>
      dicts st4 (new_frontmatter (trackers st4 a)) = dicts st1 (metadata first_note) \<and>
      dicts st1 (metadata first_note) (YStr ''owner'') = None \<and>
      dicts st4 (metadata first_note) (YStr ''owner'') = Some (YStr ''x'')"
proof -
  define st where "st = ready draft_vault"
  define st1 where "st1 = projr (run_note add_appends rename_rule first_note st)"
  define st3 where "st3 = snd (run_loop add_appends [Yield (YStr ''draft'') (Some owner_rule)] st1)"
  define st4 where "st4 = snd (finish \<lparr>confirm = Acknowledge, backup = ArchiveOk\<rparr> st3)"
  have h1: "sound_refs st" by (simp add: st_def sound_refs_ready)
  have h2: "first_note \<in> set (note_list st)"
    by (simp add: st_def ready_fields load_notes_def draft_vault_def first_note_def)
  have h3: "run_note add_appends rename_rule first_note st = Inr st1"
    using run_note_frame[OF h1 h2, of add_appends rename_rule] by (auto simp: st1_def)
  have h4: "set [] \<subseteq> set (note_list st)" by simp
  have h5: "run_notes add_appends [] [] st1 = Inr st1" by simp
  have h6: "run_loop add_appends [Yield (YStr ''draft'') (Some owner_rule)] st1 =
              (fst (run_loop add_appends [Yield (YStr ''draft'') (Some owner_rule)] st1), st3)"
    by (simp add: st3_def)
  have h7: "finish \<lparr>confirm = Acknowledge, backup = ArchiveOk\<rparr> st3 =
              (fst (finish \<lparr>confirm = Acknowledge, backup = ArchiveOk\<rparr> st3), st4)"
    by (simp add: st4_def)
  have e0: "all_changes st = []" "dicts st (metadata first_note) (YStr ''status'') = Some (YStr ''todo'')"
    "dicts st (metadata first_note) (YStr ''state'') = None"
    by (simp_all add: st_def ready_def first_note_def draft_vault_def run_defs)
  have e1: "dicts st1 (metadata first_note) (YStr ''owner'') = None"
    by (simp add: st1_def st_def ready_def first_note_def rename_rule_def draft_vault_def run_defs)
  have e4: "dicts st4 (metadata first_note) (YStr ''owner'') = Some (YStr ''x'')"
    by (simp add: st4_def st3_def st1_def st_def ready_def first_note_def rename_rule_def
        owner_rule_def draft_vault_def run_defs)
  from snapshots_are_independent_copies [OF h1 h2 h3 h4 h5 h6 h7]
  obtain a where a: "all_changes st1 = all_changes st @ [a]"
    "dicts st1 (old_frontmatter (trackers st1 a)) = dicts st (metadata first_note)"
    "trackers st4 a = trackers st1 a"
    "dicts st4 (old_frontmatter (trackers st1 a)) = dicts st (metadata first_note)"
    "dicts st4 (new_frontmatter (trackers st1 a)) = dicts st1 (metadata first_note)"
    by blast
  have l: "last (all_changes st1) = a" "all_changes st1 = [a]" using a(1) e0(1) by simp_all
  show ?thesis
    unfolding Let_def st_def[symmetric] st1_def[symmetric] st3_def[symmetric] st4_def[symmetric]
    using h1 h2 h3 h5 l a e0 e1 e4 by simp
qed

end
